theory Spec2Isabelle
  imports Main "HOL-Library.AList" "HOL-Library.Multiset" "HOL-Library.Sublist"
begin

section \<open>Python strings\<close>

text \<open>
  Strings are byte lists. \<open>startswith\<close> is \<^const>\<open>prefix\<close>. The characters the
  scripts test for are ASCII; \<open>lower\<close> is modelled on ASCII letters and leaves every other
  character as it is (no character outside ASCII lowers to a letter of the marker
  \<open>already uploaded\<close>).
\<close>

text \<open>\<open>sub in s\<close> for two strings: \<open>sub\<close> occurs as a contiguous block of \<open>s\<close>.\<close>

fun str_contains :: "string \<Rightarrow> string \<Rightarrow> bool" where
  "str_contains sub [] = (sub = [])"
| "str_contains sub (c # cs) = (prefix sub (c # cs) \<or> str_contains sub cs)"

definition lower_char :: "char \<Rightarrow> char" where
  "lower_char c =
     (case map_of (zip ''ABCDEFGHIJKLMNOPQRSTUVWXYZ'' ''abcdefghijklmnopqrstuvwxyz'') c of
        Some l \<Rightarrow> l
      | None \<Rightarrow> c)"

definition upper_char :: "char \<Rightarrow> char" where
  "upper_char c =
     (case map_of (zip ''abcdefghijklmnopqrstuvwxyz'' ''ABCDEFGHIJKLMNOPQRSTUVWXYZ'') c of
        Some u \<Rightarrow> u
      | None \<Rightarrow> c)"

definition is_letter :: "char \<Rightarrow> bool" where
  "is_letter c =
     (c \<in> set ''abcdefghijklmnopqrstuvwxyzABCDEFGHIJKLMNOPQRSTUVWXYZ'')"

definition lower :: "string \<Rightarrow> string" where
  "lower s = map lower_char s"

text \<open>
  \<open>s.title()\<close>: the first letter of every run of letters in upper case, the other
  letters of the run in lower case. \<open>prev\<close> says that the character before was a letter.
\<close>

fun title_from :: "bool \<Rightarrow> string \<Rightarrow> string" where
  "title_from prev [] = []"
| "title_from prev (c # cs) =
     (if is_letter c
      then (if prev then lower_char c else upper_char c) # title_from True cs
      else c # title_from False cs)"

definition title :: "string \<Rightarrow> string" where
  "title s = title_from False s"

text \<open>
  \<open>s.replace(old, new)\<close> for a non-empty \<open>old\<close>, which is what every call in the
  scripts passes: the occurrences of \<open>old\<close> are replaced from the left, without overlap.
\<close>

function str_replace :: "string \<Rightarrow> string \<Rightarrow> string \<Rightarrow> string" where
  "str_replace old new [] = []"
| "str_replace old new (c # cs) =
     (if old \<noteq> [] \<and> prefix old (c # cs)
      then new @ str_replace old new (drop (length old) (c # cs))
      else c # str_replace old new cs)"
  by pat_completeness auto
termination
  by (relation "measure (\<lambda>(old, new, s). length s)") (auto simp: Suc_diff_le)

text \<open>The double quote and the line feed, which a string literal cannot hold.\<close>

definition dq :: string where
  "dq = [CHR 0x22]"

definition nl :: string where
  "nl = [CHR 0x0A]"

definition sq :: string where
  "sq = [CHR 0x27]"

text \<open>
  \<open>os.path.join(a, b)\<close> on POSIX: an absolute \<open>b\<close> wins; otherwise \<open>a\<close> and \<open>b\<close> are
  joined by one slash, none being added after an empty \<open>a\<close> or an \<open>a\<close> that ends in one.
\<close>

definition path_join :: "string \<Rightarrow> string \<Rightarrow> string" where
  "path_join a b =
     (if prefix ''/'' b then b
      else if a = [] \<or> last a = CHR ''/'' then a @ b
      else a @ ''/'' @ b)"

section \<open>Python exceptions\<close>

text \<open>
  The exceptions the scripts can meet. A function that can raise returns a sum, \<open>Inl\<close>
  being the exception that leaves it.
\<close>

datatype py_error =
    AttributeError | TypeError | KeyError | FileNotFoundError
  | TomlDecodeError | CalledProcessError | OSError string

section \<open>The command runner\<close>

text \<open>
  What \<open>subprocess.run(cmd, shell=True, capture_output=True, text=True)\<close> can do: complete
  with an exit status and the two captured streams, or raise an exception \<open>e\<close> (of class
  \<open>Exception\<close>), of which the scripts use \<open>str(e)\<close> only.
\<close>

datatype proc_outcome =
    Completed (returncode: int) (stdout: string) (stderr: string)
  | Raised (message: string)

text \<open>
  The three command runners. Each has the body
  \<^verbatim>\<open>try: result = subprocess.run(...); return result.returncode == 0, result.stdout + result.stderr\<close>
  \<^verbatim>\<open>except Exception as e: return False, str(e)\<close>.
  The result type is a sum, \<open>Inl\<close> being an exception that leaves the function.
\<close>

definition run_command_improved :: "proc_outcome \<Rightarrow> py_error + (bool \<times> string)" where
  "run_command_improved r =
     (case r of
        Completed rc out err \<Rightarrow> Inr (rc = 0, out @ err)
      | Raised e \<Rightarrow> Inr (False, e))"

definition run_cmd :: "proc_outcome \<Rightarrow> py_error + (bool \<times> string)" where
  "run_cmd r =
     (case r of
        Completed rc out err \<Rightarrow> Inr (rc = 0, out @ err)
      | Raised e \<Rightarrow> Inr (False, e))"

definition run_command_all :: "proc_outcome \<Rightarrow> py_error + (bool \<times> string)" where
  "run_command_all r =
     (case r of
        Completed rc out err \<Rightarrow> Inr (rc = 0, out @ err)
      | Raised e \<Rightarrow> Inr (False, e))"

section \<open>Classification of a publish result\<close>

text \<open>
  The test each \<open>publish_crate\<close> applies to the pair the runner returned.
  \<open>publish-hanzo-automated.py\<close> and \<open>publish-all-hanzo-crates.py\<close>:
  \<^verbatim>\<open>if success or 'already uploaded' in output.lower()\<close>;
  \<open>publish-hanzo-improved.py\<close>: \<^verbatim>\<open>if success\<close>.
\<close>

definition classify_automated :: "bool \<times> string \<Rightarrow> bool" where
  "classify_automated r = (fst r \<or> str_contains ''already uploaded'' (lower (snd r)))"

definition classify_all :: "bool \<times> string \<Rightarrow> bool" where
  "classify_all r = (fst r \<or> str_contains ''already uploaded'' (lower (snd r)))"

definition classify_improved :: "bool \<times> string \<Rightarrow> bool" where
  "classify_improved r = fst r"

section \<open>Manifest documents\<close>

text \<open>
  What \<open>toml.loads\<close> returns: strings, integers, booleans, arrays and tables (floats and
  dates, which no manifest field read by the scripts holds, are left out). A table is a
  Python \<open>dict\<close>: an association list in insertion order, where \<open>d[k] = v\<close> is
  \<^const>\<open>AList.update\<close> (in place for a key that is there, at the end for a new one),
  \<open>d.get(k)\<close> is \<^const>\<open>map_of\<close> and \<open>d.pop(k)\<close> removes with \<^const>\<open>AList.delete\<close>.
\<close>

datatype toml =
    TStr string | TInt int | TBool bool | TList "toml list" | TDict "(string \<times> toml) list"

type_synonym pydict = "(string \<times> toml) list"

text \<open>Python truth value of a document value (\<open>not x\<close>, \<open>if x\<close>).\<close>

fun truthy :: "toml \<Rightarrow> bool" where
  "truthy (TStr s) = (s \<noteq> [])"
| "truthy (TInt i) = (i \<noteq> 0)"
| "truthy (TBool b) = b"
| "truthy (TList xs) = (xs \<noteq> [])"
| "truthy (TDict kvs) = (kvs \<noteq> [])"

text \<open>\<open>d.get('workspace') == True\<close>: Python's \<open>==\<close> holds for \<open>True\<close> and for \<open>1\<close>.\<close>

definition workspace_true :: "pydict \<Rightarrow> bool" where
  "workspace_true kv =
     (map_of kv ''workspace'' = Some (TBool True) \<or> map_of kv ''workspace'' = Some (TInt 1))"

text \<open>\<open>x in c\<close> for a string \<open>x\<close>; an integer or a boolean is not iterable.\<close>

fun py_in :: "string \<Rightarrow> toml \<Rightarrow> py_error + bool" where
  "py_in x (TList xs) = Inr (TStr x \<in> set xs)"
| "py_in x (TStr s) = Inr (str_contains x s)"
| "py_in x (TDict kv) = Inr (map_of kv x \<noteq> None)"
| "py_in x (TInt i) = Inl TypeError"
| "py_in x (TBool b) = Inl TypeError"

text \<open>\<open>c.append(v)\<close>: only a list has the method.\<close>

fun py_append :: "toml \<Rightarrow> toml \<Rightarrow> py_error + toml" where
  "py_append (TList xs) v = Inr (TList (xs @ [v]))"
| "py_append (TStr s) v = Inl AttributeError"
| "py_append (TInt i) v = Inl AttributeError"
| "py_append (TBool b) v = Inl AttributeError"
| "py_append (TDict kv) v = Inl AttributeError"

section \<open>publish-hanzo-improved.py: the tables\<close>

definition WORKSPACE_DEFAULTS :: pydict where
  "WORKSPACE_DEFAULTS =
     [(''version'', TStr ''1.1.10''),
      (''edition'', TStr ''2021''),
      (''authors'', TList [TStr ''Hanzo AI Inc'']),
      (''license'', TStr ''MIT''),
      (''repository'', TStr ''https://github.com/hanzoai/hanzo-node''),
      (''homepage'', TStr ''https://hanzo.ai''),
      (''description'', TStr ''Hanzo AI component'')]"

definition DEPENDENCY_VERSIONS :: "(string \<times> string) list" where
  "DEPENDENCY_VERSIONS =
     [(''tokio'', ''1.36''), (''serde'', ''1.0.219''), (''serde_json'', ''1.0.117''),
      (''chrono'', ''0.4''), (''reqwest'', ''0.11.27''), (''log'', ''0.4.20''),
      (''async-trait'', ''0.1.81''), (''futures'', ''0.3.30''), (''anyhow'', ''1.0.86''),
      (''dashmap'', ''6.0''), (''ed25519-dalek'', ''2.1.1''), (''x25519-dalek'', ''2.0.1''),
      (''base64'', ''0.22.0''), (''rusqlite'', ''0.31.0''), (''dirs'', ''5.0''),
      (''clap'', ''4.5.4''), (''home'', ''0.5.5''), (''keyphrases'', ''0.3.2''),
      (''utoipa'', ''4.2''), (''nalgebra'', ''0.32''), (''tracing'', ''0.1.40''),
      (''lazy_static'', ''1.4.0''), (''once_cell'', ''1.19''), (''regex'', ''1''),
      (''rmcp'', ''0.6''), (''bincode'', ''1.3.3''), (''uuid'', ''1.8.0''), (''csv'', ''1.3'')]"

text \<open>
  The version both dependency passes choose for an inherited dependency \<open>dep_name\<close>:
  \<^verbatim>\<open>if dep_name in DEPENDENCY_VERSIONS: DEPENDENCY_VERSIONS[dep_name]\<close>
  \<^verbatim>\<open>elif dep_name.startswith('hanzo_'): WORKSPACE_DEFAULTS['version']\<close>
  \<^verbatim>\<open>else: '1.0'\<close>.
\<close>

definition inherited_version :: "string \<Rightarrow> toml" where
  "inherited_version dep_name =
     (case map_of DEPENDENCY_VERSIONS dep_name of
        Some v \<Rightarrow> TStr v
      | None \<Rightarrow> if prefix ''hanzo_'' dep_name then TStr ''1.1.10'' else TStr ''1.0'')"

section \<open>publish-hanzo-improved.py: the resolver\<close>

subsection \<open>Package metadata\<close>

text \<open>
  One round of \<^verbatim>\<open>for field in [...]\<close>:
  \<^verbatim>\<open>if isinstance(package.get(field), dict) and package[field].get('workspace') == True:\<close>
  \<^verbatim>\<open>    package[field] = WORKSPACE_DEFAULTS[field]\<close>.
\<close>

definition fix_field :: "string \<Rightarrow> pydict \<Rightarrow> py_error + pydict" where
  "fix_field field package =
     (case map_of package field of
        Some (TDict kv) \<Rightarrow>
          if workspace_true kv
          then (case map_of WORKSPACE_DEFAULTS field of
                  Some d \<Rightarrow> Inr (AList.update field d package)
                | None \<Rightarrow> Inl KeyError)
          else Inr package
      | _ \<Rightarrow> Inr package)"

fun fix_fields :: "string list \<Rightarrow> pydict \<Rightarrow> py_error + pydict" where
  "fix_fields [] package = Inr package"
| "fix_fields (f # fs) package =
     (case fix_field f package of Inl e \<Rightarrow> Inl e | Inr p \<Rightarrow> fix_fields fs p)"

text \<open>
  \<^verbatim>\<open>if 'description' not in package or not package['description']:\<close>
  \<^verbatim>\<open>    package['description'] = WORKSPACE_DEFAULTS['description']\<close>.
\<close>

definition fix_description :: "pydict \<Rightarrow> pydict" where
  "fix_description package =
     (case map_of package ''description'' of
        None \<Rightarrow> AList.update ''description'' (TStr ''Hanzo AI component'') package
      | Some v \<Rightarrow>
          if truthy v then package
          else AList.update ''description'' (TStr ''Hanzo AI component'') package)"

text \<open>
  \<^verbatim>\<open>if 'package' in data: package = data['package']; ...\<close>. The loop calls
  \<open>package.get\<close>, which only a table has.
\<close>

definition fix_package :: "pydict \<Rightarrow> py_error + pydict" where
  "fix_package data =
     (case map_of data ''package'' of
        None \<Rightarrow> Inr data
      | Some (TDict package) \<Rightarrow>
          (case fix_fields [''version'', ''edition'', ''authors'', ''license'',
                            ''repository'', ''homepage''] package of
             Inl e \<Rightarrow> Inl e
           | Inr p \<Rightarrow> Inr (AList.update ''package'' (TDict (fix_description p)) data))
      | Some _ \<Rightarrow> Inl AttributeError)"

text \<open>\<^verbatim>\<open>if 'workspace' not in data: data['workspace'] = {}\<close>.\<close>

definition add_workspace :: "pydict \<Rightarrow> pydict" where
  "add_workspace data =
     (if map_of data ''workspace'' = None then AList.update ''workspace'' (TDict []) data
      else data)"

subsection \<open>\<open>fix_dependencies_table_syntax\<close>\<close>

text \<open>
  What the loop body makes of the popped value: a table with \<open>workspace == True\<close>
  becomes \<open>{'version': ...}\<close>, with a feature list for three names.
\<close>

definition table_dep_value :: "string \<Rightarrow> toml \<Rightarrow> toml" where
  "table_dep_value dep_name dep_value =
     (case dep_value of
        TDict kv \<Rightarrow>
          if workspace_true kv
          then TDict ([(''version'', inherited_version dep_name)] @
                 (if dep_name = ''chrono'' then [(''features'', TList [TStr ''serde''])]
                  else if dep_name = ''reqwest'' then [(''features'', TList [TStr ''json''])]
                  else if dep_name = ''nalgebra''
                    then [(''features'', TList [TStr ''serde-serialize''])]
                  else []))
          else dep_value
      | _ \<Rightarrow> dep_value)"

text \<open>
  One round of \<^verbatim>\<open>for key in list(data.keys())\<close>. \<open>key.split(".", 1)\<close> cuts at the
  first dot, which the key has. \<open>data[section][dep_name] = dep_value\<close> needs a table at
  \<open>data[section]\<close>.
\<close>

definition move_dep :: "string \<Rightarrow> pydict \<Rightarrow> py_error + pydict" where
  "move_dep key data =
     (if prefix ''dependencies.'' key \<or> prefix ''dev-dependencies.'' key then
        (let section = takeWhile (\<lambda>c. c \<noteq> CHR ''.'') key;
             dep_name = drop (length section + 1) key;
             data1 = (if map_of data section = None
                      then AList.update section (TDict []) data else data)
         in case map_of data1 key of
              None \<Rightarrow> Inl KeyError
            | Some dep_value \<Rightarrow>
                (let data2 = AList.delete key data1
                 in case map_of data2 section of
                      None \<Rightarrow> Inl KeyError
                    | Some (TDict sec) \<Rightarrow>
                        Inr (AList.update section
                               (TDict (AList.update dep_name
                                         (table_dep_value dep_name dep_value) sec)) data2)
                    | Some _ \<Rightarrow> Inl TypeError))
      else Inr data)"

fun move_deps :: "string list \<Rightarrow> pydict \<Rightarrow> py_error + pydict" where
  "move_deps [] data = Inr data"
| "move_deps (k # ks) data =
     (case move_dep k data of Inl e \<Rightarrow> Inl e | Inr d \<Rightarrow> move_deps ks d)"

definition fix_dependencies_table_syntax :: "pydict \<Rightarrow> py_error + pydict" where
  "fix_dependencies_table_syntax data = move_deps (map fst data) data"

subsection \<open>\<open>fix_inline_tables\<close>\<close>

text \<open>\<^verbatim>\<open>if feat not in features: features.append(feat)\<close>.\<close>

definition ensure_feature :: "string \<Rightarrow> toml \<Rightarrow> py_error + toml" where
  "ensure_feature feat features =
     (case py_in feat features of
        Inl e \<Rightarrow> Inl e
      | Inr b \<Rightarrow> if b then Inr features else py_append features (TStr feat))"

text \<open>
  \<^verbatim>\<open>if dep_name == 'chrono' and 'serde' not in features: features.append('serde')\<close>
  \<^verbatim>\<open>elif dep_name == 'reqwest' and 'json' not in features: ...\<close>
  \<^verbatim>\<open>elif dep_name == 'nalgebra' and 'serde-serialize' not in features: ...\<close>.
\<close>

definition add_required :: "string \<Rightarrow> toml \<Rightarrow> py_error + toml" where
  "add_required dep_name features =
     (if dep_name = ''chrono'' then ensure_feature ''serde'' features
      else if dep_name = ''reqwest'' then ensure_feature ''json'' features
      else if dep_name = ''nalgebra'' then ensure_feature ''serde-serialize'' features
      else Inr features)"

text \<open>The body of the inner loop, for one entry \<open>dep_name, dep_value\<close> of a section.\<close>

definition fix_inline_dep :: "string \<Rightarrow> toml \<Rightarrow> py_error + toml" where
  "fix_inline_dep dep_name dep_value =
     (case dep_value of
        TDict kv \<Rightarrow>
          if workspace_true kv then
            (case add_required dep_name
                    (case map_of kv ''features'' of Some f \<Rightarrow> f | None \<Rightarrow> TList []) of
               Inl e \<Rightarrow> Inl e
             | Inr features \<Rightarrow>
                 if truthy features
                 then Inr (TDict [(''version'', inherited_version dep_name),
                                  (''features'', features)])
                 else Inr (TDict [(''version'', inherited_version dep_name)]))
          else Inr dep_value
      | TStr s \<Rightarrow>
          if s = [] then
            (case map_of DEPENDENCY_VERSIONS dep_name of
               Some v \<Rightarrow> Inr (TStr v)
             | None \<Rightarrow> Inr (TStr ''1.0''))
          else Inr dep_value
      | _ \<Rightarrow> Inr dep_value)"

text \<open>
  \<^verbatim>\<open>for dep_name, dep_value in data[section].items()\<close>: every entry is visited once and
  the body assigns to the visited key only, so the loop rewrites the entries in place.
\<close>

fun fix_inline_deps :: "pydict \<Rightarrow> py_error + pydict" where
  "fix_inline_deps [] = Inr []"
| "fix_inline_deps ((n, v) # rest) =
     (case fix_inline_dep n v of
        Inl e \<Rightarrow> Inl e
      | Inr v' \<Rightarrow>
          (case fix_inline_deps rest of
             Inl e \<Rightarrow> Inl e
           | Inr rest' \<Rightarrow> Inr ((n, v') # rest')))"

definition fix_inline_section :: "string \<Rightarrow> pydict \<Rightarrow> py_error + pydict" where
  "fix_inline_section section data =
     (case map_of data section of
        None \<Rightarrow> Inr data
      | Some (TDict deps) \<Rightarrow>
          (case fix_inline_deps deps of
             Inl e \<Rightarrow> Inl e
           | Inr deps' \<Rightarrow> Inr (AList.update section (TDict deps') data))
      | Some _ \<Rightarrow> Inl AttributeError)"

text \<open>A pass over a list of sections, stopping at the first exception.\<close>

fun over_sections ::
  "(string \<Rightarrow> pydict \<Rightarrow> py_error + pydict) \<Rightarrow> string list \<Rightarrow> pydict \<Rightarrow> py_error + pydict"
where
  "over_sections f [] data = Inr data"
| "over_sections f (s # ss) data =
     (case f s data of Inl e \<Rightarrow> Inl e | Inr d \<Rightarrow> over_sections f ss d)"

definition fix_inline_tables :: "pydict \<Rightarrow> py_error + pydict" where
  "fix_inline_tables data =
     over_sections fix_inline_section
       [''dependencies'', ''dev-dependencies'', ''build-dependencies''] data"

subsection \<open>The three feature passes of \<open>fix_workspace_inheritance\<close>\<close>

text \<open>
  The passes for \<open>reqwest\<close>, \<open>chrono\<close> and \<open>nalgebra\<close> have one shape: a string becomes
  \<^verbatim>\<open>{'version': s if s else default, 'features': [feat]}\<close>; a table has \<open>feat\<close> appended to
  its feature list when it is not in it. They differ in what a table without a
  \<open>features\<close> key gets: the \<open>chrono\<close> and \<open>nalgebra\<close> passes give it \<open>[feat]\<close>
  (\<open>create = True\<close>), the \<open>reqwest\<close> pass leaves it (\<open>create = False\<close>).
\<close>

definition fix_feature_dep :: "bool \<Rightarrow> string \<Rightarrow> string \<Rightarrow> toml \<Rightarrow> py_error + toml" where
  "fix_feature_dep create dflt feat dep =
     (case dep of
        TStr s \<Rightarrow>
          Inr (TDict [(''version'', TStr (if s \<noteq> [] then s else dflt)),
                      (''features'', TList [TStr feat])])
      | TDict kv \<Rightarrow>
          (case map_of kv ''features'' of
             None \<Rightarrow>
               Inr (if create then TDict (AList.update ''features'' (TList [TStr feat]) kv)
                    else dep)
           | Some fs \<Rightarrow>
               (case py_in feat fs of
                  Inl e \<Rightarrow> Inl e
                | Inr b \<Rightarrow>
                    if b then Inr dep
                    else (case py_append fs (TStr feat) of
                            Inl e \<Rightarrow> Inl e
                          | Inr fs' \<Rightarrow> Inr (TDict (AList.update ''features'' fs' kv)))))
      | _ \<Rightarrow> Inr dep)"

text \<open>
  \<^verbatim>\<open>if section in data and name in data[section]: dep = data[section][name]; ...\<close>.
  On a section that is not a table, \<open>name in data[section]\<close> is a substring or
  membership test and \<open>data[section][name]\<close> raises.
\<close>

definition fix_feature_section ::
  "bool \<Rightarrow> string \<Rightarrow> string \<Rightarrow> string \<Rightarrow> string \<Rightarrow> pydict \<Rightarrow> py_error + pydict"
where
  "fix_feature_section create name dflt feat section data =
     (case map_of data section of
        None \<Rightarrow> Inr data
      | Some (TDict deps) \<Rightarrow>
          (case map_of deps name of
             None \<Rightarrow> Inr data
           | Some dep \<Rightarrow>
               (case fix_feature_dep create dflt feat dep of
                  Inl e \<Rightarrow> Inl e
                | Inr dep' \<Rightarrow>
                    Inr (AList.update section (TDict (AList.update name dep' deps)) data)))
      | Some sec \<Rightarrow>
          (case py_in name sec of
             Inl e \<Rightarrow> Inl e
           | Inr b \<Rightarrow> if b then Inl TypeError else Inr data))"

definition fix_reqwest :: "pydict \<Rightarrow> py_error + pydict" where
  "fix_reqwest data =
     over_sections (fix_feature_section False ''reqwest'' ''0.11.27'' ''json'')
       [''dependencies'', ''dev-dependencies'', ''build-dependencies''] data"

definition fix_chrono :: "pydict \<Rightarrow> py_error + pydict" where
  "fix_chrono data =
     over_sections (fix_feature_section True ''chrono'' ''0.4'' ''serde'')
       [''dependencies'', ''dev-dependencies''] data"

definition fix_nalgebra :: "pydict \<Rightarrow> py_error + pydict" where
  "fix_nalgebra data =
     over_sections (fix_feature_section True ''nalgebra'' ''0.32'' ''serde-serialize'')
       [''dependencies'', ''dev-dependencies''] data"

subsection \<open>The whole transformation of the parsed document\<close>

text \<open>
  \<open>fix_workspace_inheritance\<close> between \<open>toml.loads\<close> and \<open>toml.dump\<close>: the metadata,
  the empty \<open>[workspace]\<close> table, the two dependency passes and the three feature passes.
\<close>

definition fix_data :: "pydict \<Rightarrow> py_error + pydict" where
  "fix_data data =
     (case fix_package data of Inl e \<Rightarrow> Inl e | Inr d1 \<Rightarrow>
      (case fix_dependencies_table_syntax (add_workspace d1) of Inl e \<Rightarrow> Inl e | Inr d3 \<Rightarrow>
      (case fix_inline_tables d3 of Inl e \<Rightarrow> Inl e | Inr d4 \<Rightarrow>
      (case fix_reqwest d4 of Inl e \<Rightarrow> Inl e | Inr d5 \<Rightarrow>
      (case fix_chrono d5 of Inl e \<Rightarrow> Inl e | Inr d6 \<Rightarrow>
       fix_nalgebra d6)))))"

section \<open>The environment\<close>

text \<open>
  The disk: the content of every file, and the directories. \<open>os.path.exists\<close> holds for
  both.
\<close>

record fsys =
  files :: "string \<Rightarrow> string option"
  dirs :: "string set"

definition path_exists :: "fsys \<Rightarrow> string \<Rightarrow> bool" where
  "path_exists fs p = (files fs p \<noteq> None \<or> p \<in> dirs fs)"

text \<open>
  The shell commands \<open>cp src dst\<close> and \<open>mv src dst\<close> between two files of one directory:
  they fail, with exit status 1, when \<open>src\<close> is not a file.
\<close>

definition sh_cp :: "fsys \<Rightarrow> string \<Rightarrow> string \<Rightarrow> proc_outcome \<times> fsys" where
  "sh_cp fs src dst =
     (case files fs src of
        None \<Rightarrow> (Completed 1 [] ''cp: cannot stat: No such file or directory'', fs)
      | Some c \<Rightarrow> (Completed 0 [] [], fs\<lparr>files := (files fs)(dst \<mapsto> c)\<rparr>))"

definition sh_mv :: "fsys \<Rightarrow> string \<Rightarrow> string \<Rightarrow> proc_outcome \<times> fsys" where
  "sh_mv fs src dst =
     (case files fs src of
        None \<Rightarrow> (Completed 1 [] ''mv: cannot stat: No such file or directory'', fs)
      | Some c \<Rightarrow> (Completed 0 [] [], fs\<lparr>files := ((files fs)(src := None))(dst \<mapsto> c)\<rparr>))"

text \<open>
  The regular expressions of \<open>publish-hanzo-automated.py\<close>:
  \<^item> \<open>VersionWorkspace\<close>, \<open>EditionWorkspace\<close>, \<open>AuthorsWorkspace\<close>: the field name, \<open>=\<close> and
    \<open>{ workspace = true }\<close>, with any white space between the tokens;
  \<^item> \<open>AuthorsLine\<close>: \<open>(authors = .*\n)\<close>;
  \<^item> \<open>WorkspaceDep\<close>: a dependency name (group 1), \<open>=\<close>, \<open>{ workspace = true\<close>, and the
    shortest text up to a closing brace.
  \<open>re.sub\<close> walks the subject from the left and cuts it into the text between matches and
  the matches, of which the scripts read \<open>group(0)\<close> and \<open>group(1)\<close>.
\<close>

datatype pattern =
  VersionWorkspace | EditionWorkspace | AuthorsWorkspace | AuthorsLine | WorkspaceDep

datatype re_piece = Between string | Match (group0: string) (group1: string)

text \<open>
  What the scripts call and do not define: the TOML library, the regular expression
  engine, \<open>cargo publish\<close> run in a package directory (it reads the disk and gives an
  outcome), and the operator's answer to \<open>input\<close> after a package failed.
\<close>

record world =
  toml_loads :: "string \<Rightarrow> pydict option"
  toml_dumps :: "pydict \<Rightarrow> string"
  re_pieces :: "pattern \<Rightarrow> string \<Rightarrow> re_piece list"
  cargo_publish :: "string \<Rightarrow> fsys \<Rightarrow> proc_outcome"
  answer :: "string \<Rightarrow> string"

text \<open>\<open>re.sub(pattern, repl, s)\<close>, \<open>repl\<close> being given \<open>group(0)\<close> and \<open>group(1)\<close>.\<close>

definition re_sub :: "world \<Rightarrow> pattern \<Rightarrow> (string \<Rightarrow> string \<Rightarrow> string) \<Rightarrow> string \<Rightarrow> string" where
  "re_sub w p repl s =
     concat (map (\<lambda>pc. case pc of Between t \<Rightarrow> t | Match g0 g1 \<Rightarrow> repl g0 g1)
                 (re_pieces w p s))"

text \<open>
  The state of a run of \<open>main\<close>: the packages whose loop body was entered, in order, the
  two lists of the report, the exception that ended the run if one did, and the disk.
\<close>

record run =
  attempted :: "string list"
  succeeded :: "string list"
  failed :: "string list"
  raised :: "py_error option"
  disk :: fsys

definition base_path :: string where
  "base_path = ''/Users/z/work/shinkai/hanzo-node/hanzo-libs''"

section \<open>publish-hanzo-improved.py: the orchestrator\<close>

text \<open>
  \<open>fix_workspace_inheritance\<close>: read, parse, transform, serialise, write. Nothing is
  written when a step raises.
\<close>

definition fix_workspace_inheritance :: "world \<Rightarrow> string \<Rightarrow> fsys \<Rightarrow> py_error + fsys" where
  "fix_workspace_inheritance w cargo_toml_path fs =
     (case files fs cargo_toml_path of
        None \<Rightarrow> Inl FileNotFoundError
      | Some content \<Rightarrow>
          (case toml_loads w content of
             None \<Rightarrow> Inl TomlDecodeError
           | Some data \<Rightarrow>
               (case fix_data data of
                  Inl e \<Rightarrow> Inl e
                | Inr data' \<Rightarrow>
                    Inr (fs\<lparr>files := (files fs)(cargo_toml_path \<mapsto> toml_dumps w data')\<rparr>))))"

text \<open>
  \<open>publish_crate\<close>: the backup by \<open>cp\<close>, then \<^verbatim>\<open>try: ... finally: mv backup back\<close>. The
  \<open>try\<close> has no \<open>except\<close>: an exception of the body leaves the function after the
  \<open>finally\<close> block has run.
\<close>

definition publish_crate_improved ::
  "world \<Rightarrow> string \<Rightarrow> string \<Rightarrow> fsys \<Rightarrow> (py_error + bool) \<times> fsys"
where
  "publish_crate_improved w crate_name crate_path fs =
     (let cargo_toml_path = path_join crate_path ''Cargo.toml'';
          cargo_toml_backup = cargo_toml_path @ ''.bak'';
          (o1, fs1) = sh_cp fs cargo_toml_path cargo_toml_backup
      in case run_command_improved o1 of
           Inl e \<Rightarrow> (Inl e, fs1)
         | Inr (success, output) \<Rightarrow>
             if \<not> success then (Inr False, fs1)
             else
               (let (r, fs2) =
                      (case fix_workspace_inheritance w cargo_toml_path fs1 of
                         Inl e \<Rightarrow> (Inl e, fs1)
                       | Inr fs' \<Rightarrow>
                           (case run_command_improved (cargo_publish w crate_path fs') of
                              Inl e \<Rightarrow> (Inl e, fs')
                            | Inr res \<Rightarrow> (Inr (classify_improved res), fs')))
                in (r, snd (sh_mv fs2 cargo_toml_backup cargo_toml_path))))"

text \<open>
  The loop of \<open>main\<close> over the publish order. (The ten seconds of \<open>time.sleep\<close> after a
  success change no state.) An exception that leaves \<open>publish_crate\<close> leaves \<open>main\<close>.
\<close>

fun main_loop_improved :: "world \<Rightarrow> string list \<Rightarrow> run \<Rightarrow> run" where
  "main_loop_improved w [] st = st"
| "main_loop_improved w (crate_name # rest) st =
     (let st1 = st\<lparr>attempted := attempted st @ [crate_name]\<rparr>;
          crate_path = path_join base_path crate_name
      in if \<not> path_exists (disk st) crate_path
         then main_loop_improved w rest (st1\<lparr>failed := failed st @ [crate_name]\<rparr>)
         else
           (case publish_crate_improved w crate_name crate_path (disk st) of
              (Inl e, fs') \<Rightarrow> st1\<lparr>raised := Some e, disk := fs'\<rparr>
            | (Inr ok, fs') \<Rightarrow>
                if ok
                then main_loop_improved w rest
                       (st1\<lparr>succeeded := succeeded st @ [crate_name], disk := fs'\<rparr>)
                else main_loop_improved w rest
                       (st1\<lparr>failed := failed st @ [crate_name], disk := fs'\<rparr>)))"

text \<open>
  \<open>main\<close>: without \<open>CARGO_REGISTRY_TOKEN\<close> (unset or empty) it exits before the loop
  (\<open>None\<close>); otherwise the loop runs from empty lists.
\<close>

definition main_improved :: "world \<Rightarrow> string option \<Rightarrow> string list \<Rightarrow> fsys \<Rightarrow> run option" where
  "main_improved w token crates fs =
     (if token = None \<or> token = Some [] then None
      else Some (main_loop_improved w crates
                   \<lparr>attempted = [], succeeded = [], failed = [], raised = None, disk = fs\<rparr>))"

section \<open>publish-hanzo-automated.py\<close>

definition WORKSPACE_DEPS :: "(string \<times> string) list" where
  "WORKSPACE_DEPS =
     [(''tokio'', ''1.36''), (''serde'', ''1.0.219''), (''serde_json'', ''1.0.117''),
      (''chrono'', ''0.4''), (''reqwest'', ''0.11.27''), (''log'', ''0.4.20''),
      (''async-trait'', ''0.1.81''), (''futures'', ''0.3.30''), (''anyhow'', ''1.0.86''),
      (''dashmap'', ''6.0''), (''ed25519-dalek'', ''2.1.1''), (''x25519-dalek'', ''2.0.1''),
      (''base64'', ''0.22.0''), (''rusqlite'', ''0.31.0''), (''dirs'', ''5.0''),
      (''clap'', ''4.5.4''), (''home'', ''0.5.5''), (''utoipa'', ''4.2''),
      (''tracing'', ''0.1.40''), (''lazy_static'', ''1.4.0''), (''once_cell'', ''1.19''),
      (''regex'', ''1''), (''tempfile'', ''3.8'')]"

definition CRYPTO_FEATURES :: "(string \<times> string list) list" where
  "CRYPTO_FEATURES =
     [(''ed25519-dalek'', [''rand_core'']),
      (''x25519-dalek'', [''static_secrets'']),
      (''chrono'', [''serde'']),
      (''tokio'', [''rt'', ''rt-multi-thread'', ''macros'', ''fs'', ''io-util'', ''net'',
                   ''sync'', ''time'']),
      (''serde'', [''derive''])]"

text \<open>The registry of published packages as the script starts with it.\<close>

definition PUBLISHED_HANZO :: "(string \<times> string) list" where
  "PUBLISHED_HANZO =
     [(''hanzo_message_primitives'', ''1.1.10''),
      (''hanzo_non_rust_code'', ''1.1.10''),
      (''hanzo_crypto_identities'', ''1.1.10''),
      (''hanzo_tools_runner'', ''1.0.3'')]"

text \<open>How an f-string prints a list of strings: \<open>['a', 'b']\<close>.\<close>

fun join_with :: "string \<Rightarrow> string list \<Rightarrow> string" where
  "join_with sep [] = []"
| "join_with sep [x] = x"
| "join_with sep (x # y # ys) = x @ sep @ join_with sep (y # ys)"

definition py_list_repr :: "string list \<Rightarrow> string" where
  "py_list_repr xs = ''['' @ join_with '', '' (map (\<lambda>x. sq @ x @ sq) xs) @ '']''"

text \<open>
  The text \<open>replace_dep\<close> returns for a version: a table with the features of
  \<open>CRYPTO_FEATURES\<close> when the name has some, the bare version otherwise.
\<close>

definition explicit_dep :: "string \<Rightarrow> string \<Rightarrow> string" where
  "explicit_dep dep_name version =
     (case map_of CRYPTO_FEATURES dep_name of
        Some features \<Rightarrow>
          dep_name @ '' = { version = '' @ dq @ version @ dq @ '', features = ''
            @ py_list_repr features @ '' }''
      | None \<Rightarrow> dep_name @ '' = '' @ dq @ version @ dq)"

text \<open>
  \<open>replace_dep(match)\<close>, with the registry it reads, \<open>match.group(1)\<close> and
  \<open>match.group(0)\<close>. A name that is in neither table is kept as it is.
\<close>

definition replace_dep :: "(string \<times> string) list \<Rightarrow> string \<Rightarrow> string \<Rightarrow> string" where
  "replace_dep published whole dep_name =
     (case map_of published (str_replace ''-'' ''_'' dep_name) of
        Some version \<Rightarrow> explicit_dep dep_name version
      | None \<Rightarrow>
          (case map_of WORKSPACE_DEPS dep_name of
             Some version \<Rightarrow> explicit_dep dep_name version
           | None \<Rightarrow> whole))"

text \<open>
  \<open>create_fixed_cargo_toml\<close>, from the content it read to the content it returns: first
  the metadata (\<open>fixed_metadata\<close>, the part before \<open>replace_dep\<close> is defined), then the
  substitution of \<open>replace_dep\<close> for every match of the dependency pattern.
\<close>

definition add_after_authors :: "world \<Rightarrow> string \<Rightarrow> string \<Rightarrow> string" where
  "add_after_authors w line content = re_sub w AuthorsLine (\<lambda>g0 g1. g1 @ line) content"

definition fixed_metadata :: "world \<Rightarrow> string \<Rightarrow> string \<Rightarrow> string" where
  "fixed_metadata w crate_name content0 =
     (let c1 = re_sub w VersionWorkspace (\<lambda>g0 g1. ''version = '' @ dq @ ''1.1.10'' @ dq) content0;
          c2 = re_sub w EditionWorkspace (\<lambda>g0 g1. ''edition = '' @ dq @ ''2021'' @ dq) c1;
          c3 = re_sub w AuthorsWorkspace
                 (\<lambda>g0 g1. ''authors = ['' @ dq @ ''Hanzo AI Inc'' @ dq @ '']'') c2;
          c4 = (if \<not> str_contains ''license ='' c3
                then add_after_authors w (''license = '' @ dq @ ''MIT'' @ dq @ nl) c3 else c3);
          c5 = (if \<not> str_contains ''repository ='' c4
                then add_after_authors w
                       (''repository = '' @ dq @ ''https://github.com/hanzoai/hanzo-node''
                          @ dq @ nl) c4
                else c4);
          c6 = (if \<not> str_contains ''homepage ='' c5
                then add_after_authors w
                       (''homepage = '' @ dq @ ''https://hanzo.ai'' @ dq @ nl) c5
                else c5);
          c7 = (if \<not> str_contains ''description ='' c6
                then add_after_authors w
                       (''description = '' @ dq
                          @ title (str_replace ''-'' '' '' (str_replace ''hanzo-'' [] crate_name))
                          @ '' for Hanzo AI platform'' @ dq @ nl) c6
                else c6)
      in c7)"

definition fixed_content :: "world \<Rightarrow> (string \<times> string) list \<Rightarrow> string \<Rightarrow> string \<Rightarrow> string" where
  "fixed_content w published crate_name content0 =
     re_sub w WorkspaceDep (replace_dep published) (fixed_metadata w crate_name content0)"

definition create_fixed_cargo_toml ::
  "world \<Rightarrow> (string \<times> string) list \<Rightarrow> string \<Rightarrow> string \<Rightarrow> fsys \<Rightarrow> py_error + string"
where
  "create_fixed_cargo_toml w published crate_path crate_name fs =
     (case files fs (path_join crate_path ''Cargo.toml'') of
        None \<Rightarrow> Inl FileNotFoundError
      | Some content \<Rightarrow> Inr (fixed_content w published crate_name content))"

text \<open>\<open>subprocess.run(cmd, shell=True, check=True)\<close>: a non-zero exit status raises.\<close>

definition checked :: "proc_outcome \<Rightarrow> py_error + unit" where
  "checked r =
     (case r of
        Completed rc out err \<Rightarrow> if rc = 0 then Inr () else Inl CalledProcessError
      | Raised e \<Rightarrow> Inl (OSError e))"

text \<open>
  \<open>publish_crate\<close>: the result, the registry (a successful publish records the package
  at \<open>1.1.10\<close>) and the disk. Every exception of the first \<open>try\<close> block is caught.
\<close>

definition publish_crate_automated ::
  "world \<Rightarrow> (string \<times> string) list \<Rightarrow> string \<Rightarrow> fsys
     \<Rightarrow> bool \<times> (string \<times> string) list \<times> fsys"
where
  "publish_crate_automated w published crate_name fs =
     (let crate_path = path_join base_path crate_name;
          cargo_toml = path_join crate_path ''Cargo.toml'';
          backup = cargo_toml @ ''.backup''
      in if \<not> path_exists fs crate_path then (False, published, fs)
         else
           (case create_fixed_cargo_toml w published crate_path crate_name fs of
              Inl e \<Rightarrow> (False, published, fs)
            | Inr fixed \<Rightarrow>
                (let (o1, fs1) = sh_cp fs cargo_toml backup
                 in case checked o1 of
                      Inl e \<Rightarrow> (False, published, fs1)
                    | Inr u \<Rightarrow>
                        (let fs2 = fs1\<lparr>files := (files fs1)(cargo_toml \<mapsto> fixed)\<rparr>
                         in case run_cmd (cargo_publish w crate_path fs2) of
                              Inl e \<Rightarrow> (False, published, fs2)
                            | Inr res \<Rightarrow>
                                (let fs3 = snd (sh_mv fs2 backup cargo_toml)
                                 in if classify_automated res
                                    then (True,
                                          AList.update (str_replace ''-'' ''_'' crate_name)
                                            ''1.1.10'' published,
                                          fs3)
                                    else (False, published, fs3))))))"

text \<open>
  The loop of \<open>main\<close>. \<open>succeeded\<close> is set before the loop, to the keys the registry has
  then, and the loop does not change it.
\<close>

record run_automated = run +
  registry :: "(string \<times> string) list"

fun main_loop_automated :: "world \<Rightarrow> string list \<Rightarrow> run_automated \<Rightarrow> run_automated" where
  "main_loop_automated w [] st = st"
| "main_loop_automated w (crate_name # rest) st =
     (case publish_crate_automated w (registry st) crate_name (disk st) of
        (ok, published', fs') \<Rightarrow>
          if ok
          then main_loop_automated w rest
                 (st\<lparr>attempted := attempted st @ [crate_name],
                     registry := published', disk := fs'\<rparr>)
          else main_loop_automated w rest
                 (st\<lparr>attempted := attempted st @ [crate_name],
                     failed := failed st @ [crate_name],
                     registry := published', disk := fs'\<rparr>))"

definition main_automated ::
  "world \<Rightarrow> string option \<Rightarrow> string list \<Rightarrow> fsys \<Rightarrow> run_automated option"
where
  "main_automated w token crates fs =
     (if token = None \<or> token = Some [] then None
      else Some (main_loop_automated w crates
                   \<lparr>attempted = [], succeeded = map fst PUBLISHED_HANZO, failed = [],
                    raised = None, disk = fs, registry = PUBLISHED_HANZO\<rparr>))"

section \<open>publish-all-hanzo-crates.py\<close>

text \<open>
  \<open>fix_cargo_toml\<close>: four textual fixes, written back when they changed the content.
  There is no backup. Reading a path that exists and is not a file raises.
\<close>

definition fixed_text_all :: "string \<Rightarrow> string" where
  "fixed_text_all content =
     (let c1 = str_replace (''thiserror = '' @ dq @ ''1.0.86'' @ dq)
                 (''thiserror = '' @ dq @ ''2.0'' @ dq) content;
          c2 = str_replace (''blake3 = '' @ dq @ ''1.8.2'' @ dq)
                 (''blake3 = '' @ dq @ ''1.5'' @ dq) c1;
          c3 = (if str_contains (''ed25519-dalek = '' @ dq @ ''2.1.1'' @ dq) c2
                then str_replace (''ed25519-dalek = '' @ dq @ ''2.1.1'' @ dq)
                       (''ed25519-dalek = { version = '' @ dq @ ''2.1.1'' @ dq
                          @ '', features = ['' @ dq @ ''rand_core'' @ dq @ ''] }'') c2
                else c2)
      in if str_contains (''x25519-dalek = '' @ dq @ ''2.0.1'' @ dq) c3
         then str_replace (''x25519-dalek = '' @ dq @ ''2.0.1'' @ dq)
                (''x25519-dalek = { version = '' @ dq @ ''2.0.1'' @ dq
                   @ '', features = ['' @ dq @ ''static_secrets'' @ dq @ ''] }'') c3
         else c3)"

definition fix_cargo_toml :: "string \<Rightarrow> fsys \<Rightarrow> (py_error + bool) \<times> fsys" where
  "fix_cargo_toml crate_path fs =
     (let cargo_toml = path_join crate_path ''Cargo.toml''
      in if \<not> path_exists fs cargo_toml then (Inr False, fs)
         else
           (case files fs cargo_toml of
              None \<Rightarrow> (Inl (OSError ''Is a directory''), fs)
            | Some original \<Rightarrow>
                if fixed_text_all original \<noteq> original
                then (Inr True, fs\<lparr>files := (files fs)(cargo_toml \<mapsto> fixed_text_all original)\<rparr>)
                else (Inr False, fs)))"

text \<open>
  \<open>publish_crate\<close>. (The result of \<open>cargo search\<close> is printed and not used.)
\<close>

definition publish_crate_all ::
  "world \<Rightarrow> string \<Rightarrow> fsys \<Rightarrow> (py_error + bool) \<times> fsys"
where
  "publish_crate_all w crate_name fs =
     (let crate_path = path_join base_path crate_name
      in if \<not> path_exists fs crate_path then (Inr False, fs)
         else
           (case fix_cargo_toml crate_path fs of
              (Inl e, fs1) \<Rightarrow> (Inl e, fs1)
            | (Inr changed, fs1) \<Rightarrow>
                (case run_command_all (cargo_publish w crate_path fs1) of
                   Inl e \<Rightarrow> (Inl e, fs1)
                 | Inr res \<Rightarrow> (Inr (classify_all res), fs1))))"

text \<open>
  The loop of \<open>main\<close>: \<open>hanzo-message-primitives\<close> is skipped, and after a failure the
  operator is asked; any answer other than \<open>y\<close> ends the loop.
\<close>

fun main_loop_all :: "world \<Rightarrow> string list \<Rightarrow> run \<Rightarrow> run" where
  "main_loop_all w [] st = st"
| "main_loop_all w (crate_name # rest) st =
     (if crate_name = ''hanzo-message-primitives'' then main_loop_all w rest st
      else
        (let st1 = st\<lparr>attempted := attempted st @ [crate_name]\<rparr>
         in case publish_crate_all w crate_name (disk st) of
              (Inl e, fs') \<Rightarrow> st1\<lparr>raised := Some e, disk := fs'\<rparr>
            | (Inr ok, fs') \<Rightarrow>
                if ok
                then main_loop_all w rest
                       (st1\<lparr>succeeded := succeeded st @ [crate_name], disk := fs'\<rparr>)
                else if lower (answer w crate_name) \<noteq> ''y''
                then st1\<lparr>failed := failed st @ [crate_name], disk := fs'\<rparr>
                else main_loop_all w rest
                       (st1\<lparr>failed := failed st @ [crate_name], disk := fs'\<rparr>)))"

definition main_all :: "world \<Rightarrow> string option \<Rightarrow> string list \<Rightarrow> fsys \<Rightarrow> run option" where
  "main_all w token crates fs =
     (if token = None \<or> token = Some [] then None
      else Some (main_loop_all w crates
                   \<lparr>attempted = [], succeeded = [], failed = [], raised = None, disk = fs\<rparr>))"

section \<open>Declared features\<close>

text \<open>The features a dependency declaration lists, and whether it is inherited.\<close>

definition declared_features :: "toml \<Rightarrow> toml set" where
  "declared_features v =
     (case v of
        TDict kv \<Rightarrow> (case map_of kv ''features'' of Some (TList fs) \<Rightarrow> set fs | _ \<Rightarrow> {})
      | _ \<Rightarrow> {})"

definition inherited :: "toml \<Rightarrow> bool" where
  "inherited v = (case v of TDict kv \<Rightarrow> workspace_true kv | _ \<Rightarrow> False)"

section \<open>Concrete runs\<close>

text \<open>
  Two package directories under \<open>base_path\<close> and their manifests. On the two manifest
  texts that the runs below parse, the TOML library does this: \<open>[dependencies]\<close> is a
  document with one empty table, \<open>[package\<close> is rejected. The only document the runs
  serialise is the resolved form of the first, with an empty \<open>dependencies\<close> and an empty
  \<open>workspace\<close> table.
\<close>

definition pqc_toml :: string where
  "pqc_toml = ''/Users/z/work/shinkai/hanzo-node/hanzo-libs/hanzo-pqc/Cargo.toml''"

definition db_toml :: string where
  "db_toml = ''/Users/z/work/shinkai/hanzo-node/hanzo-libs/hanzo-db/Cargo.toml''"

definition ex_dirs :: "string set" where
  "ex_dirs = {''/Users/z/work/shinkai/hanzo-node/hanzo-libs/hanzo-pqc'',
              ''/Users/z/work/shinkai/hanzo-node/hanzo-libs/hanzo-db''}"

definition ex_disk :: "string \<Rightarrow> string \<Rightarrow> fsys" where
  "ex_disk pqc db =
     \<lparr>files = (\<lambda>p. if p = pqc_toml then Some pqc else if p = db_toml then Some db else None),
      dirs = ex_dirs\<rparr>"

definition ex_loads :: "string \<Rightarrow> pydict option" where
  "ex_loads s = (if s = ''[dependencies]'' then Some [(''dependencies'', TDict [])] else None)"

definition ex_dumps :: "pydict \<Rightarrow> string" where
  "ex_dumps d = ''[dependencies]'' @ nl @ nl @ ''[workspace]'' @ nl"

text \<open>
  A world where \<open>cargo publish\<close> gives the outcome \<open>out\<close> for \<open>hanzo-pqc\<close> and succeeds
  for every other package, no regular expression matches, and the operator answers
  \<open>n\<close>.
\<close>

definition ex_world :: "proc_outcome \<Rightarrow> world" where
  "ex_world out =
     \<lparr>toml_loads = ex_loads,
      toml_dumps = ex_dumps,
      re_pieces = (\<lambda>p s. [Between s]),
      cargo_publish =
        (\<lambda>p fs. if p = ''/Users/z/work/shinkai/hanzo-node/hanzo-libs/hanzo-pqc'' then out
                 else Completed 0 [] []),
      answer = (\<lambda>c. ''n'')\<rparr>"

definition already_uploaded :: proc_outcome where
  "already_uploaded = Completed 101 [] ''error: crate version 1.1.10 is already uploaded''"

definition rejected :: proc_outcome where
  "rejected = Completed 101 [] ''error: failed to verify package tarball''"

text \<open>
  A manifest with an inherited dependency \<open>foo\<close> that no table knows, and the pieces the
  pattern \<open>WorkspaceDep\<close> cuts it into; no other pattern matches in it.
\<close>

definition foo_manifest :: string where
  "foo_manifest = ''[dependencies]'' @ nl @ ''foo = { workspace = true }'' @ nl"

definition foo_world :: world where
  "foo_world =
     \<lparr>toml_loads = ex_loads,
      toml_dumps = ex_dumps,
      re_pieces =
        (\<lambda>p s. if p = WorkspaceDep \<and> s = foo_manifest
                then [Between (''[dependencies]'' @ nl),
                      Match ''foo = { workspace = true }'' ''foo'',
                      Between nl]
                else [Between s]),
      cargo_publish = (\<lambda>p fs. Completed 0 [] []),
      answer = (\<lambda>c. ''n'')\<rparr>"






section \<open>Properties of a resolved document\<close>

text \<open>
  The three dependency sections, and the top-level keys that
  \<open>fix_dependencies_table_syntax\<close> moves.
\<close>

definition sections3 :: "string list" where
  "sections3 = [''dependencies'', ''dev-dependencies'', ''build-dependencies'']"

definition dotted :: "string \<Rightarrow> bool" where
  "dotted k = (prefix ''dependencies.'' k \<or> prefix ''dev-dependencies.'' k)"


text \<open>
  What each pass leaves behind. An entry that \<open>fix_inline_tables\<close> does not change
  (\<open>dep_ok\<close>), a section all of whose entries are such (\<open>sec4\<close>); an entry that a feature
  pass does not change (\<open>feat_ok\<close>) and a section whose entry \<open>name\<close> is such (\<open>sec5\<close>);
  a package table that the metadata pass does not change (\<open>pkg_ok\<close>).
\<close>

definition dep_ok :: "toml \<Rightarrow> bool" where
  "dep_ok v = (\<not> inherited v \<and> v \<noteq> TStr [])"

definition sec4 :: "toml option \<Rightarrow> bool" where
  "sec4 x = (case x of
               None \<Rightarrow> True
             | Some (TDict deps) \<Rightarrow> (\<forall>(n, v)\<in>set deps. dep_ok v)
             | Some _ \<Rightarrow> False)"

definition feat_ok :: "bool \<Rightarrow> string \<Rightarrow> toml \<Rightarrow> bool" where
  "feat_ok create feat dep =
     (case dep of
        TStr s \<Rightarrow> False
      | TDict kv \<Rightarrow>
          (case map_of kv ''features'' of
             None \<Rightarrow> \<not> create
           | Some fs \<Rightarrow> py_in feat fs = Inr True)
      | _ \<Rightarrow> True)"

definition sec5 :: "bool \<Rightarrow> string \<Rightarrow> string \<Rightarrow> toml option \<Rightarrow> bool" where
  "sec5 create name feat x =
     (case x of
        Some (TDict deps) \<Rightarrow>
          (case map_of deps name of None \<Rightarrow> True | Some dep \<Rightarrow> feat_ok create feat dep)
      | _ \<Rightarrow> True)"

definition fld_ok :: "pydict \<Rightarrow> string \<Rightarrow> bool" where
  "fld_ok p f = (case map_of p f of Some (TDict kv) \<Rightarrow> \<not> workspace_true kv | _ \<Rightarrow> True)"

definition desc_ok :: "pydict \<Rightarrow> bool" where
  "desc_ok p = (case map_of p ''description'' of None \<Rightarrow> False | Some v \<Rightarrow> truthy v)"

definition fields6 :: "string list" where
  "fields6 = [''version'', ''edition'', ''authors'', ''license'', ''repository'', ''homepage'']"

definition pkg_ok :: "toml option \<Rightarrow> bool" where
  "pkg_ok x = (case x of
                 None \<Rightarrow> True
               | Some (TDict p) \<Rightarrow> (\<forall>f\<in>set fields6. fld_ok p f) \<and> desc_ok p
               | Some _ \<Rightarrow> False)"

text \<open>A document on which every pass of \<open>fix_data\<close> is the identity.\<close>

definition normal :: "pydict \<Rightarrow> bool" where
  "normal d =
     (pkg_ok (map_of d ''package'')
      \<and> map_of d ''workspace'' \<noteq> None
      \<and> (\<forall>j\<in>fst ` set d. \<not> dotted j)
      \<and> (\<forall>s\<in>set sections3. sec4 (map_of d s))
      \<and> (\<forall>s\<in>set sections3. sec5 False ''reqwest'' ''json'' (map_of d s))
      \<and> (\<forall>s\<in>{''dependencies'', ''dev-dependencies''}.
            sec5 True ''chrono'' ''serde'' (map_of d s))
      \<and> (\<forall>s\<in>{''dependencies'', ''dev-dependencies''}.
            sec5 True ''nalgebra'' ''serde-serialize'' (map_of d s)))"

text \<open>
  How one round of a pass over the sections relates the value of the section before
  (\<open>x\<close>) and after (\<open>y\<close>): \<open>Q4\<close> for \<open>fix_inline_section\<close>, \<open>Qf\<close> for
  \<open>fix_feature_section\<close>.
\<close>

definition Q4 :: "toml option \<Rightarrow> toml option \<Rightarrow> bool" where
  "Q4 x y = ((x = None \<and> y = None)
     \<or> (\<exists>deps deps'. x = Some (TDict deps) \<and> y = Some (TDict deps')
            \<and> fix_inline_deps deps = Inr deps'))"

definition Qf :: "bool \<Rightarrow> string \<Rightarrow> string \<Rightarrow> string \<Rightarrow> toml option \<Rightarrow> toml option \<Rightarrow> bool" where
  "Qf create name dflt feat x y =
     (case x of
        Some (TDict deps) \<Rightarrow>
          (case map_of deps name of
             None \<Rightarrow> y = x
           | Some dep \<Rightarrow>
               (\<exists>dep'. fix_feature_dep create dflt feat dep = Inr dep'
                        \<and> y = Some (TDict (AList.update name dep' deps))))
      | _ \<Rightarrow> y = x)"

text \<open>
  \<open>entries R x y\<close>: every entry \<open>n, v\<close> of the section \<open>x\<close> has an entry \<open>n, v'\<close> in the
  section \<open>y\<close> with \<open>R n v v'\<close>. \<open>later_step\<close>: what a feature pass can make of an entry.
\<close>

definition entries :: "(string \<Rightarrow> toml \<Rightarrow> toml \<Rightarrow> bool) \<Rightarrow> toml option \<Rightarrow> toml option \<Rightarrow> bool" where
  "entries R x y =
     (\<forall>deps n v. x = Some (TDict deps) \<and> map_of deps n = Some v \<longrightarrow>
        (\<exists>deps' v'. y = Some (TDict deps') \<and> map_of deps' n = Some v' \<and> R n v v'))"

definition later_step :: "toml \<Rightarrow> toml \<Rightarrow> bool" where
  "later_step v v' = (v' = v \<or> (\<exists>create dflt feat. fix_feature_dep create dflt feat v = Inr v'))"

section \<open>A concrete document\<close>

text \<open>
  A parsed manifest with an inherited version, four inherited dependencies (one with a
  feature list and an \<open>optional\<close> flag, one unknown to every table) and an inherited
  build dependency, and what \<open>fix_data\<close> makes of it.
\<close>

definition ex_doc :: pydict where
  "ex_doc =
     [(''package'', TDict [(''name'', TStr ''hanzo_db''),
                           (''version'', TDict [(''workspace'', TBool True)])]),
      (''dependencies'',
         TDict [(''serde'', TDict [(''workspace'', TBool True)]),
                (''tokio'', TDict [(''workspace'', TBool True),
                                   (''features'', TList [TStr ''full'']),
                                   (''optional'', TBool True)]),
                (''reqwest'', TDict [(''workspace'', TBool True),
                                     (''features'', TList [TStr ''stream''])]),
                (''foo'', TDict [(''workspace'', TBool True)])]),
      (''build-dependencies'',
         TDict [(''chrono'', TDict [(''workspace'', TBool True)])])]"

definition ex_resolved :: pydict where
  "ex_resolved =
     [(''package'', TDict [(''name'', TStr ''hanzo_db''),
                           (''version'', TStr ''1.1.10''),
                           (''description'', TStr ''Hanzo AI component'')]),
      (''dependencies'',
         TDict [(''serde'', TDict [(''version'', TStr ''1.0.219'')]),
                (''tokio'', TDict [(''version'', TStr ''1.36''),
                                   (''features'', TList [TStr ''full''])]),
                (''reqwest'', TDict [(''version'', TStr ''0.11.27''),
                                     (''features'', TList [TStr ''stream'', TStr ''json''])]),
                (''foo'', TDict [(''version'', TStr ''1.0'')])]),
      (''build-dependencies'',
         TDict [(''chrono'', TDict [(''version'', TStr ''0.4''),
                                    (''features'', TList [TStr ''serde''])])]),
      (''workspace'', TDict [])]"

text \<open>
  A manifest in which the text \<open>license =\<close> occurs only inside an inherited dependency
  declaration, what the text resolver makes of it, what it makes of that result, and the
  pieces the regular expressions cut these texts into (\<open>WorkspaceDep\<close> matches the
  declaration of \<open>log\<close> in the first, \<open>AuthorsLine\<close> the first line of the second; no other
  pattern matches in them).
\<close>

definition lic_manifest :: string where
  "lic_manifest =
     ''authors = ['' @ dq @ ''a'' @ dq @ '']'' @ nl
     @ ''repository = '' @ dq @ ''r'' @ dq @ nl
     @ ''homepage = '' @ dq @ ''h'' @ dq @ nl
     @ ''description = '' @ dq @ ''d'' @ dq @ nl
     @ ''log = { workspace = true, license = '' @ dq @ ''MIT'' @ dq @ '' }'' @ nl"

definition lic_once :: string where
  "lic_once =
     ''authors = ['' @ dq @ ''a'' @ dq @ '']'' @ nl
     @ ''repository = '' @ dq @ ''r'' @ dq @ nl
     @ ''homepage = '' @ dq @ ''h'' @ dq @ nl
     @ ''description = '' @ dq @ ''d'' @ dq @ nl
     @ ''log = '' @ dq @ ''0.4.20'' @ dq @ nl"

definition lic_twice :: string where
  "lic_twice =
     ''authors = ['' @ dq @ ''a'' @ dq @ '']'' @ nl
     @ ''license = '' @ dq @ ''MIT'' @ dq @ nl
     @ ''repository = '' @ dq @ ''r'' @ dq @ nl
     @ ''homepage = '' @ dq @ ''h'' @ dq @ nl
     @ ''description = '' @ dq @ ''d'' @ dq @ nl
     @ ''log = '' @ dq @ ''0.4.20'' @ dq @ nl"

definition lic_world :: world where
  "lic_world =
     \<lparr>toml_loads = ex_loads,
      toml_dumps = ex_dumps,
      re_pieces =
        (\<lambda>p s.
           if p = WorkspaceDep \<and> s = lic_manifest
           then [Between (''authors = ['' @ dq @ ''a'' @ dq @ '']'' @ nl
                          @ ''repository = '' @ dq @ ''r'' @ dq @ nl
                          @ ''homepage = '' @ dq @ ''h'' @ dq @ nl
                          @ ''description = '' @ dq @ ''d'' @ dq @ nl),
                 Match (''log = { workspace = true, license = '' @ dq @ ''MIT'' @ dq @ '' }'')
                   ''log'',
                 Between nl]
           else if p = AuthorsLine \<and> s = lic_once
           then [Between [],
                 Match (''authors = ['' @ dq @ ''a'' @ dq @ '']'' @ nl)
                   (''authors = ['' @ dq @ ''a'' @ dq @ '']'' @ nl),
                 Between (''repository = '' @ dq @ ''r'' @ dq @ nl
                          @ ''homepage = '' @ dq @ ''h'' @ dq @ nl
                          @ ''description = '' @ dq @ ''d'' @ dq @ nl
                          @ ''log = '' @ dq @ ''0.4.20'' @ dq @ nl)]
           else [Between s]),
      cargo_publish = (\<lambda>p fs. Completed 0 [] []),
      answer = (\<lambda>c. ''n'')\<rparr>"

section \<open>Theorems\<close>

subsection \<open>The command runner\<close>

text \<open>
  C10. Each of the three command runners returns a (success, output) pair for every outcome
  of the command, and an exception raised by the command becomes the pair
  (False, message of the exception): no exception leaves the runner.
\<close>

theorem run_command_total:
  "(\<exists>ok out. run_command_improved r = Inr (ok, out))
   \<and> (\<exists>ok out. run_cmd r = Inr (ok, out))
   \<and> (\<exists>ok out. run_command_all r = Inr (ok, out))
   \<and> run_command_improved (Raised e) = Inr (False, e)
   \<and> run_cmd (Raised e) = Inr (False, e)
   \<and> run_command_all (Raised e) = Inr (False, e)
   \<and> run_command_improved (Completed rc out err) = Inr (rc = 0, out @ err)
   \<and> run_cmd (Completed rc out err) = Inr (rc = 0, out @ err)
   \<and> run_command_all (Completed rc out err) = Inr (rc = 0, out @ err)"
  by (cases r) (auto simp add: run_command_improved_def run_cmd_def run_command_all_def)

subsection \<open>Evaluation of the concrete runs\<close>

lemmas ex_defs =
  ex_world_def ex_disk_def ex_dirs_def ex_loads_def ex_dumps_def pqc_toml_def db_toml_def
  already_uploaded_def rejected_def base_path_def path_join_def path_exists_def

lemmas improved_defs =
  main_improved_def publish_crate_improved_def sh_cp_def sh_mv_def run_command_improved_def
  fix_workspace_inheritance_def classify_improved_def Let_def
  fix_data_def fix_package_def add_workspace_def fix_dependencies_table_syntax_def move_dep_def
  fix_inline_tables_def fix_inline_section_def fix_reqwest_def fix_chrono_def fix_nalgebra_def
  fix_feature_section_def

lemmas automated_defs =
  main_automated_def publish_crate_automated_def create_fixed_cargo_toml_def fixed_content_def fixed_metadata_def
  re_sub_def add_after_authors_def checked_def run_cmd_def classify_automated_def
  lower_def lower_char_def sh_cp_def sh_mv_def Let_def

lemmas all_defs =
  main_all_def publish_crate_all_def fix_cargo_toml_def fixed_text_all_def
  run_command_all_def classify_all_def lower_def lower_char_def dq_def Let_def

subsection \<open>Backup and restore\<close>

text \<open>
  C2, as the claim states it, fails on \<open>publish-all-hanzo-crates.py\<close>: its
  \<open>fix_cargo_toml\<close> rewrites the manifest in place and keeps no backup. After
  \<open>publish_crate\<close> has processed \<open>hanzo-pqc\<close>, whose manifest held
  \<open>thiserror = "1.0.86"\<close>, the file holds \<open>thiserror = "2.0"\<close>.
\<close>

theorem all_crates_manifest_changed:
  "files (snd (publish_crate_all (ex_world (Completed 0 [] [])) ''hanzo-pqc''
       (ex_disk (''thiserror = '' @ dq @ ''1.0.86'' @ dq) ''[dependencies]''))) pqc_toml
    = Some (''thiserror = '' @ dq @ ''2.0'' @ dq)
   \<and> files (ex_disk (''thiserror = '' @ dq @ ''1.0.86'' @ dq) ''[dependencies]'') pqc_toml
    = Some (''thiserror = '' @ dq @ ''1.0.86'' @ dq)"
  by (simp add: ex_defs all_defs)

text \<open>
  C2, amended. In \<open>publish-hanzo-improved.py\<close> and \<open>publish-hanzo-automated.py\<close>, whatever
  the parser, the resolver and \<open>cargo publish\<close> do (success, already published, rejection,
  an exception), the manifest holds after \<open>publish_crate\<close> what it held before; this
  includes the case of a manifest that is missing before and after.
\<close>

theorem manifest_restored:
  "files (snd (publish_crate_improved w crate_name crate_path fs))
       (path_join crate_path ''Cargo.toml'')
     = files fs (path_join crate_path ''Cargo.toml'')
   \<and> files (snd (snd (publish_crate_automated w published crate_name fs)))
       (path_join (path_join base_path crate_name) ''Cargo.toml'')
     = files fs (path_join (path_join base_path crate_name) ''Cargo.toml'')"
proof
  show "files (snd (publish_crate_improved w crate_name crate_path fs))
       (path_join crate_path ''Cargo.toml'')
     = files fs (path_join crate_path ''Cargo.toml'')"
  proof (cases "files fs (path_join crate_path ''Cargo.toml'')")
    case None
    then show ?thesis
      by (simp add: publish_crate_improved_def sh_cp_def run_command_improved_def Let_def)
  next
    case (Some c)
    then show ?thesis
      by (auto simp add: publish_crate_improved_def sh_cp_def sh_mv_def Let_def
            run_command_improved_def fix_workspace_inheritance_def classify_improved_def
          split: option.splits sum.splits prod.splits proc_outcome.splits)
  qed
  show "files (snd (snd (publish_crate_automated w published crate_name fs)))
       (path_join (path_join base_path crate_name) ''Cargo.toml'')
     = files fs (path_join (path_join base_path crate_name) ''Cargo.toml'')"
  proof (cases "files fs (path_join (path_join base_path crate_name) ''Cargo.toml'')")
    case None
    then show ?thesis
      by (simp add: publish_crate_automated_def create_fixed_cargo_toml_def Let_def)
  next
    case (Some c)
    then show ?thesis
      by (auto simp add: publish_crate_automated_def create_fixed_cargo_toml_def sh_cp_def
            sh_mv_def Let_def checked_def run_cmd_def
          split: option.splits sum.splits prod.splits proc_outcome.splits)
  qed
qed

subsection \<open>Classification of the publish result\<close>

text \<open>
  C3 at the failing input. \<open>cargo publish\<close> exits with status 101 and an output that
  contains \<open>already uploaded\<close>: \<open>publish_crate\<close> of \<open>publish-hanzo-automated.py\<close> returns
  \<open>True\<close>, \<open>publish_crate\<close> of \<open>publish-hanzo-improved.py\<close> returns \<open>False\<close> on the same
  disk, and its \<open>main\<close> lists the package as failed.
\<close>

theorem improved_already_uploaded_failed:
  "fst (publish_crate_improved (ex_world already_uploaded) ''hanzo-pqc''
          (path_join base_path ''hanzo-pqc'') (ex_disk ''[dependencies]'' ''[dependencies]''))
     = Inr False
   \<and> fst (publish_crate_automated (ex_world already_uploaded) PUBLISHED_HANZO ''hanzo-pqc''
          (ex_disk ''[dependencies]'' ''[dependencies]''))
     = True
   \<and> map_option failed
        (main_improved (ex_world already_uploaded) (Some ''token'') [''hanzo-pqc'']
           (ex_disk ''[dependencies]'' ''[dependencies]''))
     = Some [''hanzo-pqc'']"
proof (intro conjI)
  show "fst (publish_crate_improved (ex_world already_uploaded) ''hanzo-pqc''
          (path_join base_path ''hanzo-pqc'') (ex_disk ''[dependencies]'' ''[dependencies]''))
     = Inr False"
    by (simp add: ex_defs improved_defs)
  show "fst (publish_crate_automated (ex_world already_uploaded) PUBLISHED_HANZO ''hanzo-pqc''
          (ex_disk ''[dependencies]'' ''[dependencies]''))
     = True"
    by (simp add: ex_defs automated_defs)
  show "map_option failed
        (main_improved (ex_world already_uploaded) (Some ''token'') [''hanzo-pqc'']
           (ex_disk ''[dependencies]'' ''[dependencies]''))
     = Some [''hanzo-pqc'']"
    by (simp add: ex_defs improved_defs)
qed

subsection \<open>A manifest that does not parse\<close>

text \<open>
  C9 at the failing input. The manifest of \<open>hanzo-pqc\<close> is rejected by the parser. The
  exception leaves \<open>publish_crate\<close> and \<open>main\<close> of \<open>publish-hanzo-improved.py\<close>:
  \<open>hanzo-pqc\<close> is in neither list of the report and \<open>hanzo-db\<close>, the next package of the
  order, is not attempted.
\<close>

theorem improved_parse_error_aborts:
  "map_option raised (main_improved (ex_world (Completed 0 [] [])) (Some ''token'')
       [''hanzo-pqc'', ''hanzo-db''] (ex_disk ''[package'' ''[dependencies]''))
     = Some (Some TomlDecodeError)
   \<and> map_option attempted (main_improved (ex_world (Completed 0 [] [])) (Some ''token'')
       [''hanzo-pqc'', ''hanzo-db''] (ex_disk ''[package'' ''[dependencies]''))
     = Some [''hanzo-pqc'']
   \<and> map_option failed (main_improved (ex_world (Completed 0 [] [])) (Some ''token'')
       [''hanzo-pqc'', ''hanzo-db''] (ex_disk ''[package'' ''[dependencies]''))
     = Some []
   \<and> map_option succeeded (main_improved (ex_world (Completed 0 [] [])) (Some ''token'')
       [''hanzo-pqc'', ''hanzo-db''] (ex_disk ''[package'' ''[dependencies]''))
     = Some []"
  by (simp add: ex_defs improved_defs)

subsection \<open>The order of the run and the report\<close>

lemma main_loop_improved_prefix:
  "prefix (attempted (main_loop_improved w crates st)) (attempted st @ crates)"
proof (induction crates arbitrary: st)
  case Nil
  then show ?case by simp
next
  case (Cons c cs)
  have step: "\<And>st'. attempted st' = attempted st @ [c] \<Longrightarrow>
     prefix (attempted (main_loop_improved w cs st')) (attempted st @ c # cs)"
    using Cons.IH by (metis append.assoc append_Cons append_Nil)
  show ?case
    by (auto simp add: Let_def step split: prod.splits sum.splits)
qed

lemma main_loop_improved_complete:
  "raised (main_loop_improved w crates st) = None \<Longrightarrow>
     attempted (main_loop_improved w crates st) = attempted st @ crates
     \<and> mset (succeeded (main_loop_improved w crates st))
         + mset (failed (main_loop_improved w crates st))
         = mset (succeeded st) + mset (failed st) + mset crates"
proof (induction crates arbitrary: st)
  case Nil
  then show ?case by simp
next
  case (Cons c cs)
  show ?case
    using Cons.prems
    by (auto simp add: Let_def dest!: Cons.IH split: prod.splits sum.splits if_splits)
qed

lemma main_loop_automated_attempted:
  "attempted (main_loop_automated w crates st) = attempted st @ crates"
  by (induction crates arbitrary: st) (auto simp add: Let_def split: prod.splits)

lemma main_loop_automated_raised:
  "raised (main_loop_automated w crates st) = raised st"
  by (induction crates arbitrary: st) (auto simp add: Let_def split: prod.splits)

text \<open>
  C4, as the claim states it, fails on \<open>publish-all-hanzo-crates.py\<close>: after a failure
  its \<open>main\<close> asks the operator, and on any answer but \<open>y\<close> it leaves the loop. With the
  order \<open>hanzo-pqc\<close>, \<open>hanzo-db\<close>, a rejected publish of \<open>hanzo-pqc\<close> and the answer \<open>n\<close>,
  \<open>hanzo-db\<close> is not attempted and the report has one entry.
\<close>

theorem all_crates_stops_after_failure:
  "map_option attempted (main_all (ex_world rejected) (Some ''token'')
       [''hanzo-pqc'', ''hanzo-db''] (ex_disk ''[dependencies]'' ''[dependencies]''))
     = Some [''hanzo-pqc'']
   \<and> map_option failed (main_all (ex_world rejected) (Some ''token'')
       [''hanzo-pqc'', ''hanzo-db''] (ex_disk ''[dependencies]'' ''[dependencies]''))
     = Some [''hanzo-pqc'']
   \<and> map_option succeeded (main_all (ex_world rejected) (Some ''token'')
       [''hanzo-pqc'', ''hanzo-db''] (ex_disk ''[dependencies]'' ''[dependencies]''))
     = Some []"
  by (simp add: ex_defs all_defs)

text \<open>
  C4, amended. With the credential set, \<open>main\<close> of \<open>publish-hanzo-improved.py\<close> enters
  the loop body for the packages in the supplied order (the attempted packages are a
  prefix of the order), and when no exception has left \<open>publish_crate\<close> it has attempted
  all of them, failed ones included, and the two lists of its report hold every package
  of the order exactly once. \<open>main\<close> of \<open>publish-hanzo-automated.py\<close> attempts all the
  packages in the supplied order and no exception leaves it.
\<close>

theorem orchestrator_order:
  assumes "tok \<noteq> []"
  shows "(\<exists>r. main_improved w (Some tok) crates fs = Some r
              \<and> prefix (attempted r) crates
              \<and> (raised r = None \<longrightarrow>
                   attempted r = crates
                   \<and> mset (succeeded r) + mset (failed r) = mset crates
                   \<and> length (succeeded r) + length (failed r) = length crates))
         \<and> (\<exists>r. main_automated w (Some tok) crates fs = Some r
              \<and> attempted r = crates \<and> raised r = None)"
proof (intro conjI)
  let ?st = "\<lparr>attempted = [], succeeded = [], failed = [], raised = None, disk = fs\<rparr>"
  let ?r = "main_loop_improved w crates ?st"
  have run: "main_improved w (Some tok) crates fs = Some ?r"
    using assms by (simp add: main_improved_def)
  have pre: "prefix (attempted ?r) crates"
    using main_loop_improved_prefix [of w crates ?st] by simp
  have full: "raised ?r = None \<longrightarrow>
                attempted ?r = crates
                \<and> mset (succeeded ?r) + mset (failed ?r) = mset crates
                \<and> length (succeeded ?r) + length (failed ?r) = length crates"
  proof
    assume "raised ?r = None"
    from main_loop_improved_complete [OF this]
    have a: "attempted ?r = crates"
      and m: "mset (succeeded ?r) + mset (failed ?r) = mset crates"
      by simp_all
    have "size (mset (succeeded ?r) + mset (failed ?r)) = size (mset crates)"
      using m by simp
    then have "length (succeeded ?r) + length (failed ?r) = length crates"
      by simp
    with a m show "attempted ?r = crates
                \<and> mset (succeeded ?r) + mset (failed ?r) = mset crates
                \<and> length (succeeded ?r) + length (failed ?r) = length crates"
      by simp
  qed
  show "\<exists>r. main_improved w (Some tok) crates fs = Some r
              \<and> prefix (attempted r) crates
              \<and> (raised r = None \<longrightarrow>
                   attempted r = crates
                   \<and> mset (succeeded r) + mset (failed r) = mset crates
                   \<and> length (succeeded r) + length (failed r) = length crates)"
    by (rule exI [of _ ?r]) (use run pre full in blast)
  show "\<exists>r. main_automated w (Some tok) crates fs = Some r
              \<and> attempted r = crates \<and> raised r = None"
    using assms
    by (simp add: main_automated_def main_loop_automated_attempted main_loop_automated_raised)
qed

text \<open>
  A run of three packages: the publish of \<open>hanzo-pqc\<close> is rejected, \<open>hanzo-db\<close> is
  published, the directory of \<open>hanzo-fs\<close> is missing. All three are attempted, in order,
  and the report has three entries.
\<close>

theorem orchestrator_order_witness:
  "''token'' \<noteq> []
   \<and> (\<exists>r. main_improved (ex_world rejected) (Some ''token'')
             [''hanzo-pqc'', ''hanzo-db'', ''hanzo-fs'']
             (ex_disk ''[dependencies]'' ''[dependencies]'') = Some r
          \<and> raised r = None
          \<and> attempted r = [''hanzo-pqc'', ''hanzo-db'', ''hanzo-fs'']
          \<and> mset (succeeded r) + mset (failed r)
              = mset [''hanzo-pqc'', ''hanzo-db'', ''hanzo-fs'']
          \<and> succeeded r = [''hanzo-db'']
          \<and> failed r = [''hanzo-pqc'', ''hanzo-fs''])"
proof -
  have tok: "''token''\<noteq> []" by simp
  have ev: "\<exists>d. main_improved (ex_world rejected) (Some ''token'')
             [''hanzo-pqc'', ''hanzo-db'', ''hanzo-fs'']
             (ex_disk ''[dependencies]'' ''[dependencies]'')
        = Some \<lparr>attempted = [''hanzo-pqc'', ''hanzo-db'', ''hanzo-fs''],
                succeeded = [''hanzo-db''], failed = [''hanzo-pqc'', ''hanzo-fs''],
                raised = None, disk = d\<rparr>"
    by (simp add: ex_defs improved_defs)
  then obtain d where ev': "main_improved (ex_world rejected) (Some ''token'')
             [''hanzo-pqc'', ''hanzo-db'', ''hanzo-fs'']
             (ex_disk ''[dependencies]'' ''[dependencies]'')
        = Some \<lparr>attempted = [''hanzo-pqc'', ''hanzo-db'', ''hanzo-fs''],
                succeeded = [''hanzo-db''], failed = [''hanzo-pqc'', ''hanzo-fs''],
                raised = None, disk = d\<rparr>" ..
  have "\<exists>r. main_improved (ex_world rejected) (Some ''token'')
             [''hanzo-pqc'', ''hanzo-db'', ''hanzo-fs'']
             (ex_disk ''[dependencies]'' ''[dependencies]'') = Some r
          \<and> prefix (attempted r) [''hanzo-pqc'', ''hanzo-db'', ''hanzo-fs'']
          \<and> (raised r = None \<longrightarrow>
                 attempted r = [''hanzo-pqc'', ''hanzo-db'', ''hanzo-fs'']
                 \<and> mset (succeeded r) + mset (failed r)
                     = mset [''hanzo-pqc'', ''hanzo-db'', ''hanzo-fs'']
                 \<and> length (succeeded r) + length (failed r)
                     = length [''hanzo-pqc'', ''hanzo-db'', ''hanzo-fs''])"
    using orchestrator_order [OF tok, of "ex_world rejected"
      "[''hanzo-pqc'', ''hanzo-db'', ''hanzo-fs'']"
      "ex_disk ''[dependencies]'' ''[dependencies]''"] by (rule conjunct1)
  then obtain r where r: "main_improved (ex_world rejected) (Some ''token'')
             [''hanzo-pqc'', ''hanzo-db'', ''hanzo-fs'']
             (ex_disk ''[dependencies]'' ''[dependencies]'') = Some r"
    and imp: "raised r = None \<longrightarrow>
                 attempted r = [''hanzo-pqc'', ''hanzo-db'', ''hanzo-fs'']
                 \<and> mset (succeeded r) + mset (failed r)
                     = mset [''hanzo-pqc'', ''hanzo-db'', ''hanzo-fs'']
                 \<and> length (succeeded r) + length (failed r)
                     = length [''hanzo-pqc'', ''hanzo-db'', ''hanzo-fs'']"
    by (elim exE conjE)
  from r ev' have rv: "raised r = None" "succeeded r = [''hanzo-db'']"
    "failed r = [''hanzo-pqc'', ''hanzo-fs'']"
    by auto
  from imp rv(1) have "attempted r = [''hanzo-pqc'', ''hanzo-db'', ''hanzo-fs'']
                 \<and> mset (succeeded r) + mset (failed r)
                     = mset [''hanzo-pqc'', ''hanzo-db'', ''hanzo-fs'']"
    by simp
  with r rv tok show ?thesis
    by (intro conjI exI [of _ r]) simp_all
qed

subsection \<open>The registry of published packages\<close>








subsection \<open>The passes of the structured resolver\<close>

lemmas resolver_defs =
  fix_data_def fix_package_def fix_field_def fix_description_def add_workspace_def
  fix_dependencies_table_syntax_def move_dep_def table_dep_value_def
  fix_inline_tables_def fix_inline_section_def fix_inline_dep_def workspace_true_def
  add_required_def ensure_feature_def inherited_version_def DEPENDENCY_VERSIONS_def
  WORKSPACE_DEFAULTS_def fix_reqwest_def fix_chrono_def fix_nalgebra_def
  fix_feature_section_def fix_feature_dep_def


lemma update_existing_keys:
  "map_of d s = Some v \<Longrightarrow> map fst (AList.update s v' d) = map fst d"
  by (simp add: update_keys) (metis domI dom_map_of_conv_image_fst image_set)

lemma over_sections_rel:
  assumes step: "\<And>s d d'. f s d = Inr d' \<Longrightarrow>
         map fst d' = map fst d \<and> (\<forall>k. k \<noteq> s \<longrightarrow> map_of d' k = map_of d k)
         \<and> Q (map_of d s) (map_of d' s)"
    and "distinct ss" and "over_sections f ss d = Inr d'"
  shows "map fst d' = map fst d \<and> (\<forall>k. k \<notin> set ss \<longrightarrow> map_of d' k = map_of d k)
         \<and> (\<forall>s\<in>set ss. Q (map_of d s) (map_of d' s))"
  using assms(2,3)
proof (induction ss arbitrary: d)
  case Nil
  then show ?case by simp
next
  case (Cons s ss)
  from Cons.prems(2) obtain d1 where d1: "f s d = Inr d1"
    and rest: "over_sections f ss d1 = Inr d'"
    by (auto split: sum.splits)
  from Cons.prems(1) have dis: "distinct ss" and ns: "s \<notin> set ss" by simp_all
  note st = step [OF d1]
  note ih = Cons.IH [OF dis rest]
  show ?case
  proof (intro conjI allI impI ballI)
    show "map fst d' = map fst d" using st ih by simp
  next
    fix k assume "k \<notin> set (s # ss)"
    then show "map_of d' k = map_of d k" using st ih by simp
  next
    fix t assume t: "t \<in> set (s # ss)"
    show "Q (map_of d t) (map_of d' t)"
    proof (cases "t = s")
      case True
      then show ?thesis using st ih ns by simp
    next
      case False
      with t have "t \<in> set ss" by simp
      with ih have "Q (map_of d1 t) (map_of d' t)" by blast
      moreover from st False have "map_of d1 t = map_of d t" by blast
      ultimately show ?thesis by simp
    qed
  qed
qed

lemma fix_inline_section_step:
  "fix_inline_section s d = Inr d' \<Longrightarrow>
     map fst d' = map fst d \<and> (\<forall>k. k \<noteq> s \<longrightarrow> map_of d' k = map_of d k)
     \<and> Q4 (map_of d s) (map_of d' s)"
  by (auto simp add: fix_inline_section_def Q4_def update_conv' update_existing_keys
        split: option.splits toml.splits sum.splits)

lemma fix_feature_section_step:
  "fix_feature_section create name dflt feat s d = Inr d' \<Longrightarrow>
     map fst d' = map fst d \<and> (\<forall>k. k \<noteq> s \<longrightarrow> map_of d' k = map_of d k)
     \<and> Qf create name dflt feat (map_of d s) (map_of d' s)"
  by (auto simp add: fix_feature_section_def Qf_def update_conv' update_existing_keys
        split: option.splits toml.splits sum.splits if_splits)

lemma fix_inline_tables_rel:
  assumes "fix_inline_tables d = Inr d'"
  shows "map fst d' = map fst d \<and> (\<forall>k. k \<notin> set sections3 \<longrightarrow> map_of d' k = map_of d k)
         \<and> (\<forall>s\<in>set sections3. Q4 (map_of d s) (map_of d' s))"
  using over_sections_rel [where f = fix_inline_section and Q = Q4, OF fix_inline_section_step _
      assms [unfolded fix_inline_tables_def]]
  by (simp add: sections3_def)

lemma fix_reqwest_rel:
  assumes "fix_reqwest d = Inr d'"
  shows "map fst d' = map fst d \<and> (\<forall>k. k \<notin> set sections3 \<longrightarrow> map_of d' k = map_of d k)
         \<and> (\<forall>s\<in>set sections3. Qf False ''reqwest'' ''0.11.27'' ''json'' (map_of d s) (map_of d' s))"
  using over_sections_rel [where f = "fix_feature_section False ''reqwest'' ''0.11.27'' ''json''"
      and Q = "Qf False ''reqwest'' ''0.11.27'' ''json''", OF fix_feature_section_step _
      assms [unfolded fix_reqwest_def]]
  by (simp add: sections3_def)

lemma workspace_true_update_features [simp]:
  "workspace_true (AList.update ''features'' f kv) = workspace_true kv"
  by (simp add: workspace_true_def update_conv')

lemma inherited_version_nonempty: "inherited_version n \<noteq> TStr []"
  by (auto simp add: inherited_version_def DEPENDENCY_VERSIONS_def split: option.splits if_splits)

lemma dependency_version_nonempty: "map_of DEPENDENCY_VERSIONS n = Some v \<Longrightarrow> v \<noteq> []"
  by (auto simp add: DEPENDENCY_VERSIONS_def split: if_splits)

lemma fix_inline_dep_ok: "fix_inline_dep n v = Inr v' \<Longrightarrow> dep_ok v'"
  by (cases v)
     (auto simp add: fix_inline_dep_def dep_ok_def inherited_def workspace_true_def
        dest: dependency_version_nonempty
        split: if_splits sum.splits option.splits)

lemma fix_inline_deps_ok:
  "fix_inline_deps deps = Inr deps' \<Longrightarrow> \<forall>(n, v)\<in>set deps'. dep_ok v"
proof (induction deps arbitrary: deps')
  case Nil
  then show ?case by simp
next
  case (Cons p deps)
  obtain n v where p: "p = (n, v)" by (cases p)
  from Cons.prems p obtain v' rest' where v': "fix_inline_dep n v = Inr v'"
    and rest: "fix_inline_deps deps = Inr rest'" and eq: "deps' = (n, v') # rest'"
    by (auto split: sum.splits)
  from Cons.IH [OF rest] fix_inline_dep_ok [OF v'] eq show ?case by simp
qed

lemma Q4_sec4: "Q4 x y \<Longrightarrow> sec4 y"
  using fix_inline_deps_ok by (auto simp add: Q4_def sec4_def)

lemma dep_ok_fixed: "dep_ok v \<Longrightarrow> fix_inline_dep n v = Inr v"
  by (cases v) (auto simp add: fix_inline_dep_def dep_ok_def inherited_def)

lemma deps_ok_fixed: "\<forall>(n, v)\<in>set deps. dep_ok v \<Longrightarrow> fix_inline_deps deps = Inr deps"
  by (induction deps) (auto simp add: dep_ok_fixed)

lemma fix_feature_dep_ok:
  "fix_feature_dep create dflt feat dep = Inr dep' \<Longrightarrow> dep_ok dep \<Longrightarrow> dep_ok dep'"
  by (cases dep)
     (auto simp add: fix_feature_dep_def dep_ok_def inherited_def workspace_true_def update_conv'
        split: option.splits sum.splits if_splits)

lemma set_update_subset: "set (AList.update k v al) \<subseteq> insert (k, v) (set al)"
  by (induction al) auto

lemma Qf_sec4: "Qf create name dflt feat x y \<Longrightarrow> sec4 x \<Longrightarrow> sec4 y"
proof -
  assume q: "Qf create name dflt feat x y" and s: "sec4 x"
  show ?thesis
  proof (cases x)
    case None
    with q s show ?thesis by (simp add: Qf_def)
  next
    case (Some t)
    show ?thesis
    proof (cases t)
      case (TDict deps)
      show ?thesis
      proof (cases "map_of deps name")
        case None
        with q s Some TDict show ?thesis by (simp add: Qf_def)
      next
        case (Some dep)
        with q \<open>x = Some t\<close> TDict obtain dep' where
          f: "fix_feature_dep create dflt feat dep = Inr dep'"
          and y: "y = Some (TDict (AList.update name dep' deps))"
          by (auto simp add: Qf_def)
        from s \<open>x = Some t\<close> TDict have all: "\<forall>(n, v)\<in>set deps. dep_ok v"
          by (simp add: sec4_def)
        from Some have "(name, dep) \<in> set deps" by (rule map_of_SomeD)
        with all have "dep_ok dep" by auto
        from fix_feature_dep_ok [OF f this] have "dep_ok dep'" .
        with all set_update_subset [of name dep' deps]
        have "\<forall>(n, v)\<in>set (AList.update name dep' deps). dep_ok v" by auto
        with y show ?thesis by (simp add: sec4_def)
      qed
    qed (use q s Some in \<open>auto simp add: Qf_def\<close>)
  qed
qed

lemma fix_feature_dep_feat_ok:
  "fix_feature_dep create dflt feat dep = Inr dep' \<Longrightarrow> feat_ok create feat dep'"
proof (cases dep)
  case (TDict kv)
  assume r: "fix_feature_dep create dflt feat dep = Inr dep'"
  show ?thesis
  proof (cases "map_of kv ''features''")
    case None
    with r TDict show ?thesis
      by (auto simp add: fix_feature_dep_def feat_ok_def update_conv')
  next
    case (Some fs)
    with r TDict show ?thesis
      by (cases fs)
         (auto simp add: fix_feature_dep_def feat_ok_def update_conv' split: if_splits sum.splits)
  qed
qed (auto simp add: fix_feature_dep_def feat_ok_def)

lemma Qf_sec5: "Qf create name dflt feat x y \<Longrightarrow> sec5 create name feat y"
proof -
  assume q: "Qf create name dflt feat x y"
  show ?thesis
  proof (cases x)
    case None
    with q show ?thesis by (simp add: Qf_def sec5_def)
  next
    case (Some t)
    show ?thesis
    proof (cases t)
      case (TDict deps)
      show ?thesis
      proof (cases "map_of deps name")
        case None
        with q Some TDict show ?thesis by (simp add: Qf_def sec5_def)
      next
        case (Some dep)
        with q \<open>x = Some t\<close> TDict obtain dep' where
          f: "fix_feature_dep create dflt feat dep = Inr dep'"
          and y: "y = Some (TDict (AList.update name dep' deps))"
          by (auto simp add: Qf_def)
        from fix_feature_dep_feat_ok [OF f] y show ?thesis
          by (simp add: sec5_def update_conv')
      qed
    qed (use q Some in \<open>auto simp add: Qf_def sec5_def\<close>)
  qed
qed

lemma Qf_sec5_other:
  "Qf create' name' dflt' feat' x y \<Longrightarrow> name' \<noteq> name \<Longrightarrow> sec5 create name feat x
     \<Longrightarrow> sec5 create name feat y"
  by (auto simp add: Qf_def sec5_def update_conv' split: option.splits toml.splits)

lemma feat_ok_fixed: "feat_ok create feat dep \<Longrightarrow> fix_feature_dep create dflt feat dep = Inr dep"
  by (cases dep) (auto simp add: feat_ok_def fix_feature_dep_def split: option.splits)

lemma sec4_fixed: "sec4 (map_of d s) \<Longrightarrow> fix_inline_section s d = Inr d"
  by (auto simp add: sec4_def fix_inline_section_def deps_ok_fixed update_triv
        split: option.splits toml.splits)

lemma sec5_fixed:
  "sec4 (map_of d s) \<Longrightarrow> sec5 create name feat (map_of d s)
     \<Longrightarrow> fix_feature_section create name dflt feat s d = Inr d"
  by (auto simp add: sec4_def sec5_def fix_feature_section_def feat_ok_fixed update_triv
        split: option.splits toml.splits)

lemma over_sections_fixed:
  "\<forall>s\<in>set ss. f s d = Inr d \<Longrightarrow> over_sections f ss d = Inr d"
  by (induction ss) auto

lemma fix_inline_deps_lookup:
  "fix_inline_deps deps = Inr deps' \<Longrightarrow> map_of deps n = Some v
     \<Longrightarrow> \<exists>v'. map_of deps' n = Some v' \<and> fix_inline_dep n v = Inr v'"
proof (induction deps arbitrary: deps')
  case Nil
  then show ?case by simp
next
  case (Cons p deps)
  obtain m u where p: "p = (m, u)" by (cases p)
  from Cons.prems(1) p obtain u' rest' where u': "fix_inline_dep m u = Inr u'"
    and rest: "fix_inline_deps deps = Inr rest'" and eq: "deps' = (m, u') # rest'"
    by (auto split: sum.splits)
  show ?case
  proof (cases "m = n")
    case True
    with Cons.prems(2) p u' eq show ?thesis by simp
  next
    case False
    with Cons.prems(2) p have "map_of deps n = Some v" by simp
    from Cons.IH [OF rest this] False eq show ?thesis by simp
  qed
qed

lemma feature_pass_rel:
  assumes "over_sections (fix_feature_section create name dflt feat) ss d = Inr d'"
    and "distinct ss"
  shows "map fst d' = map fst d \<and> (\<forall>k. k \<notin> set ss \<longrightarrow> map_of d' k = map_of d k)
         \<and> (\<forall>s\<in>set ss. Qf create name dflt feat (map_of d s) (map_of d' s))"
  using over_sections_rel [where f = "fix_feature_section create name dflt feat"
      and Q = "Qf create name dflt feat", OF fix_feature_section_step assms(2) assms(1)] .

lemma feature_pass_sec4:
  assumes "over_sections (fix_feature_section create name dflt feat) ss d = Inr d'"
    and "distinct ss" and "sec4 (map_of d s)"
  shows "sec4 (map_of d' s)"
  using feature_pass_rel [OF assms(1,2)] assms(3) Qf_sec4
  by (cases "s \<in> set ss") auto

lemma feature_pass_sec5:
  assumes "over_sections (fix_feature_section create name dflt feat) ss d = Inr d'"
    and "distinct ss" and "s \<in> set ss"
  shows "sec5 create name feat (map_of d' s)"
  using feature_pass_rel [OF assms(1,2)] assms(3) Qf_sec5 by blast

lemma feature_pass_sec5_other:
  assumes "over_sections (fix_feature_section create' name' dflt' feat') ss d = Inr d'"
    and "distinct ss" and "name' \<noteq> name" and "sec5 create name feat (map_of d s)"
  shows "sec5 create name feat (map_of d' s)"
proof (cases "s \<in> set ss")
  case True
  with feature_pass_rel [OF assms(1,2)]
  have "Qf create' name' dflt' feat' (map_of d s) (map_of d' s)" by blast
  from Qf_sec5_other [OF this assms(3,4)] show ?thesis .
next
  case False
  with feature_pass_rel [OF assms(1,2)] assms(4) show ?thesis by simp
qed

text \<open>\<open>fix_dependencies_table_syntax\<close>: the keys it removes and the keys it leaves alone.\<close>

lemma section_of_dotted:
  "prefix ''dependencies.'' k \<Longrightarrow> takeWhile (\<lambda>c. c \<noteq> CHR ''.'') k = ''dependencies''"
  "prefix ''dev-dependencies.'' k \<Longrightarrow> takeWhile (\<lambda>c. c \<noteq> CHR ''.'') k = ''dev-dependencies''"
  by (auto simp add: prefix_def)

lemma section_cases:
  "dotted k \<Longrightarrow> takeWhile (\<lambda>c. c \<noteq> CHR ''.'') k = ''dependencies''
      \<or> takeWhile (\<lambda>c. c \<noteq> CHR ''.'') k = ''dev-dependencies''"
  using section_of_dotted by (auto simp add: dotted_def)

lemma not_dotted_sections [simp]:
  "\<not> dotted ''dependencies''" "\<not> dotted ''dev-dependencies''" "\<not> dotted ''build-dependencies''"
  "\<not> dotted ''package''" "\<not> dotted ''workspace''"
  by (simp_all add: dotted_def)

lemma move_dep_not_dotted: "\<not> dotted k \<Longrightarrow> move_dep k d = Inr d"
  by (simp add: move_dep_def dotted_def)

lemma move_dep_dotted:
  assumes "move_dep k d = Inr d'" and "dotted k"
  shows "\<exists>sec d1 v deps.
           (sec = ''dependencies'' \<or> sec = ''dev-dependencies'')
           \<and> (d1 = d \<or> d1 = AList.update sec (TDict []) d)
           \<and> d' = AList.update sec
                    (TDict (AList.update (drop (length sec + 1) k)
                              (table_dep_value (drop (length sec + 1) k) v) deps))
                    (AList.delete k d1)"
proof -
  let ?sec = "takeWhile (\<lambda>c. c \<noteq> CHR ''.'') k"
  let ?d1 = "if map_of d ?sec = None then AList.update ?sec (TDict []) d else d"
  from assms(2) have sec: "?sec = ''dependencies'' \<or> ?sec = ''dev-dependencies''"
    by (rule section_cases)
  have d1: "?d1 = d \<or> ?d1 = AList.update ?sec (TDict []) d" by simp
  from assms(2) have pre: "prefix ''dependencies.'' k \<or> prefix ''dev-dependencies.'' k"
    by (simp add: dotted_def)
  have unf: "move_dep k d =
      (case map_of ?d1 k of
         None \<Rightarrow> Inl KeyError
       | Some dep_value \<Rightarrow>
           (case map_of (AList.delete k ?d1) ?sec of
              None \<Rightarrow> Inl KeyError
            | Some (TDict sec) \<Rightarrow>
                Inr (AList.update ?sec
                       (TDict (AList.update (drop (length ?sec + 1) k)
                                 (table_dep_value (drop (length ?sec + 1) k) dep_value) sec))
                       (AList.delete k ?d1))
            | Some _ \<Rightarrow> Inl TypeError))"
    unfolding move_dep_def Let_def using pre by (simp only: if_True)
  from assms(1) unf obtain v where v: "map_of ?d1 k = Some v"
    by (cases "map_of ?d1 k") simp_all
  from assms(1) unf v obtain t where t: "map_of (AList.delete k ?d1) ?sec = Some t"
    by (cases "map_of (AList.delete k ?d1) ?sec") simp_all
  from assms(1) unf v t obtain deps where deps: "t = TDict deps"
    by (cases t) simp_all
  from assms(1) unf v t deps
  have "d' = AList.update ?sec
                    (TDict (AList.update (drop (length ?sec + 1) k)
                              (table_dep_value (drop (length ?sec + 1) k) v) deps))
                    (AList.delete k ?d1)"
    by simp
  with sec d1 show ?thesis by blast
qed

lemma move_dep_keys:
  assumes "move_dep k d = Inr d'" and "dotted k"
  shows "fst ` set d' \<subseteq> (fst ` set d - {k}) \<union> {''dependencies'', ''dev-dependencies''}"
proof -
  from move_dep_dotted [OF assms] obtain sec d1 v deps where
    sec: "sec = ''dependencies'' \<or> sec = ''dev-dependencies''"
    and d1: "d1 = d \<or> d1 = AList.update sec (TDict []) d"
    and d': "d' = AList.update sec
                    (TDict (AList.update (drop (length sec + 1) k)
                              (table_dep_value (drop (length sec + 1) k) v) deps))
                    (AList.delete k d1)"
    by blast
  show ?thesis
  proof
    fix x assume x: "x \<in> fst ` set d'"
    from x have "x \<in> {sec} \<union> fst ` set (AList.delete k d1)"
      unfolding d' by (simp only: dom_update)
    then have "x = sec \<or> x \<in> fst ` set (AList.delete k d1)" by simp
    then show "x \<in> (fst ` set d - {k}) \<union> {''dependencies'', ''dev-dependencies''}"
    proof
      assume "x = sec"
      with sec show ?thesis by auto
    next
      assume xd: "x \<in> fst ` set (AList.delete k d1)"
      with delete_notin_dom [of k d1] have xk: "x \<noteq> k" by auto
      from xd dom_delete_subset [of k d1] have x1: "x \<in> fst ` set d1" by (rule rev_subsetD)
      from d1 show ?thesis
      proof
        assume "d1 = d"
        with x1 xk show ?thesis by simp
      next
        assume "d1 = AList.update sec (TDict []) d"
        with x1 have "x \<in> {sec} \<union> fst ` set d" by (simp only: dom_update)
        with xk sec show ?thesis by auto
      qed
    qed
  qed
qed

lemma move_dep_frame:
  assumes "move_dep k d = Inr d'" and "\<not> dotted j"
    and "j \<noteq> ''dependencies''" and "j \<noteq> ''dev-dependencies''"
  shows "map_of d' j = map_of d j"
proof (cases "dotted k")
  case False
  with assms(1) show ?thesis by (simp add: move_dep_not_dotted)
next
  case True
  from move_dep_dotted [OF assms(1) True] obtain sec d1 v deps where
    sec: "sec = ''dependencies'' \<or> sec = ''dev-dependencies''"
    and d1: "d1 = d \<or> d1 = AList.update sec (TDict []) d"
    and d': "d' = AList.update sec
                    (TDict (AList.update (drop (length sec + 1) k)
                              (table_dep_value (drop (length sec + 1) k) v) deps))
                    (AList.delete k d1)"
    by blast
  from True assms(2) have jk: "j \<noteq> k" by auto
  from sec assms(3,4) have js: "j \<noteq> sec" by auto
  have "map_of d' j = map_of (AList.delete k d1) j"
    unfolding d' using js by (simp add: update_conv')
  also have "\<dots> = map_of d1 j" using jk by simp
  also have "\<dots> = map_of d j" using d1 js by (auto simp add: update_conv')
  finally show ?thesis .
qed

lemma move_deps_frame:
  assumes "move_deps ks d = Inr d'" and "\<not> dotted j"
    and "j \<noteq> ''dependencies''" and "j \<noteq> ''dev-dependencies''"
  shows "map_of d' j = map_of d j"
  using assms(1)
proof (induction ks arbitrary: d)
  case Nil
  then show ?case by simp
next
  case (Cons k ks)
  from Cons.prems obtain d1 where d1: "move_dep k d = Inr d1"
    and rest: "move_deps ks d1 = Inr d'"
    by (auto split: sum.splits)
  from Cons.IH [OF rest] move_dep_frame [OF d1 assms(2,3,4)] show ?case by simp
qed

lemma move_deps_dotted_keys:
  "move_deps ks d = Inr d' \<Longrightarrow>
     {j \<in> fst ` set d'. dotted j} \<subseteq> {j \<in> fst ` set d. dotted j} - set ks"
proof (induction ks arbitrary: d)
  case Nil
  then show ?case by simp
next
  case (Cons k ks)
  from Cons.prems obtain d1 where d1: "move_dep k d = Inr d1"
    and rest: "move_deps ks d1 = Inr d'"
    by (auto split: sum.splits)
  have step: "{j \<in> fst ` set d1. dotted j} \<subseteq> {j \<in> fst ` set d. dotted j} - {k}"
  proof (cases "dotted k")
    case True
    from move_dep_keys [OF d1 True] show ?thesis by auto
  next
    case False
    with d1 have "d1 = d" by (simp add: move_dep_not_dotted)
    with False show ?thesis by auto
  qed
  from Cons.IH [OF rest] step show ?case by auto
qed

lemma table_syntax_no_dotted:
  "fix_dependencies_table_syntax d = Inr d' \<Longrightarrow> \<forall>j\<in>fst ` set d'. \<not> dotted j"
  using move_deps_dotted_keys [of "map fst d" d d']
  by (auto simp add: fix_dependencies_table_syntax_def)

lemma move_deps_fixed: "\<forall>k\<in>set ks. \<not> dotted k \<Longrightarrow> move_deps ks d = Inr d"
  by (induction ks) (auto simp add: move_dep_not_dotted)

lemma table_syntax_fixed:
  "\<forall>j\<in>fst ` set d. \<not> dotted j \<Longrightarrow> fix_dependencies_table_syntax d = Inr d"
  by (simp add: fix_dependencies_table_syntax_def move_deps_fixed)

text \<open>The metadata pass and the \<open>[workspace]\<close> table.\<close>

lemma default_not_table:
  "map_of WORKSPACE_DEFAULTS f = Some v \<Longrightarrow> (case v of TDict kv \<Rightarrow> False | _ \<Rightarrow> True)"
  by (auto simp add: WORKSPACE_DEFAULTS_def split: if_splits)

lemma fix_field_ok:
  "fix_field f p = Inr p' \<Longrightarrow> fld_ok p' f \<and> (\<forall>g. g \<noteq> f \<longrightarrow> map_of p' g = map_of p g)"
  by (auto simp add: fix_field_def fld_ok_def update_conv' dest!: default_not_table
        split: option.splits toml.splits if_splits)

lemma fix_fields_ok:
  "fix_fields fs p = Inr p' \<Longrightarrow> distinct fs \<Longrightarrow>
     (\<forall>f\<in>set fs. fld_ok p' f) \<and> (\<forall>g. g \<notin> set fs \<longrightarrow> map_of p' g = map_of p g)"
proof (induction fs arbitrary: p)
  case Nil
  then show ?case by simp
next
  case (Cons f fs)
  from Cons.prems(1) obtain p1 where p1: "fix_field f p = Inr p1"
    and rest: "fix_fields fs p1 = Inr p'"
    by (auto split: sum.splits)
  from Cons.prems(2) have dis: "distinct fs" and nf: "f \<notin> set fs" by simp_all
  note a = fix_field_ok [OF p1]
  note b = Cons.IH [OF rest dis]
  from a b nf have "fld_ok p' f" by (simp add: fld_ok_def)
  with a b show ?case by auto
qed

lemma fld_ok_fixed: "fld_ok p f \<Longrightarrow> fix_field f p = Inr p"
  by (auto simp add: fix_field_def fld_ok_def split: option.splits toml.splits)

lemma flds_ok_fixed: "\<forall>f\<in>set fs. fld_ok p f \<Longrightarrow> fix_fields fs p = Inr p"
  by (induction fs) (auto simp add: fld_ok_fixed)

lemma fix_description_ok:
  "desc_ok (fix_description p) \<and> (\<forall>g. g \<noteq> ''description'' \<longrightarrow> map_of (fix_description p) g = map_of p g)"
  by (auto simp add: fix_description_def desc_ok_def update_conv' split: option.splits)

lemma desc_ok_fixed: "desc_ok p \<Longrightarrow> fix_description p = p"
  by (auto simp add: fix_description_def desc_ok_def split: option.splits)

lemma fix_package_ok:
  assumes "fix_package d = Inr d'"
  shows "pkg_ok (map_of d' ''package'') \<and> (\<forall>k. k \<noteq> ''package'' \<longrightarrow> map_of d' k = map_of d k)
         \<and> fst ` set d' = fst ` set d"
proof (cases "map_of d ''package''")
  case None
  with assms show ?thesis by (simp add: fix_package_def pkg_ok_def)
next
  case (Some t)
  show ?thesis
  proof (cases t)
    case (TDict p)
    from assms Some TDict obtain p1 where p1: "fix_fields fields6 p = Inr p1"
      and d': "d' = AList.update ''package'' (TDict (fix_description p1)) d"
      by (auto simp add: fix_package_def fields6_def split: sum.splits)
    have "distinct fields6" by (simp add: fields6_def)
    from fix_fields_ok [OF p1 this] have f: "\<forall>f\<in>set fields6. fld_ok p1 f" by simp
    have "\<forall>f\<in>set fields6. f \<noteq> ''description''" by (simp add: fields6_def)
    with fix_description_ok [of p1]
    have "\<forall>f\<in>set fields6. map_of (fix_description p1) f = map_of p1 f" by blast
    with f have "\<forall>f\<in>set fields6. fld_ok (fix_description p1) f"
      by (simp add: fld_ok_def)
    with fix_description_ok [of p1] have "pkg_ok (Some (TDict (fix_description p1)))"
      by (simp add: pkg_ok_def)
    moreover have "''package'' \<in> fst ` set d"
    proof -
      from Some have "(''package'', t) \<in> set d" by (rule map_of_SomeD)
      then have "fst (''package'', t) \<in> fst ` set d" by (rule imageI)
      then show ?thesis by simp
    qed
    then have "{''package''} \<union> fst ` set d = fst ` set d" by blast
    ultimately show ?thesis unfolding d' by (simp add: update_conv' dom_update)
  qed (use assms Some in \<open>auto simp add: fix_package_def\<close>)
qed

lemma pkg_ok_fixed:
  assumes "pkg_ok (map_of d ''package'')"
  shows "fix_package d = Inr d"
proof (cases "map_of d ''package''")
  case None
  then show ?thesis by (simp add: fix_package_def)
next
  case (Some t)
  show ?thesis
  proof (cases t)
    case (TDict p)
    from assms Some TDict have f: "\<forall>f\<in>set fields6. fld_ok p f" and ds: "desc_ok p"
      by (simp_all add: pkg_ok_def)
    from flds_ok_fixed [OF f] have "fix_fields [''version'', ''edition'', ''authors'',
        ''license'', ''repository'', ''homepage''] p = Inr p"
      by (simp only: fields6_def)
    with Some TDict desc_ok_fixed [OF ds] show ?thesis
      by (simp add: fix_package_def update_triv)
  qed (use assms Some in \<open>simp_all add: pkg_ok_def\<close>)
qed

lemma add_workspace_ok:
  "map_of (add_workspace d) ''workspace'' \<noteq> None
   \<and> (\<forall>k. k \<noteq> ''workspace'' \<longrightarrow> map_of (add_workspace d) k = map_of d k)
   \<and> fst ` set (add_workspace d) = insert ''workspace'' (fst ` set d)"
proof (cases "map_of d ''workspace''")
  case None
  then show ?thesis by (simp add: add_workspace_def update_conv' dom_update)
next
  case (Some t)
  then have "(''workspace'', t) \<in> set d" by (rule map_of_SomeD)
  then have "fst (''workspace'', t) \<in> fst ` set d" by (rule imageI)
  then have "insert ''workspace'' (fst ` set d) = fst ` set d" by auto
  with Some show ?thesis by (simp add: add_workspace_def)
qed

lemma add_workspace_fixed: "map_of d ''workspace'' \<noteq> None \<Longrightarrow> add_workspace d = d"
  by (auto simp add: add_workspace_def)

lemma distinct_sections [simp]:
  "distinct [''dependencies'', ''dev-dependencies'', ''build-dependencies'']"
  "distinct [''dependencies'', ''dev-dependencies'']"
  by simp_all

lemma fix_data_passes:
  assumes "fix_data d = Inr d'"
  obtains d1 d3 d4 d5 d6 where
    "fix_package d = Inr d1"
    "fix_dependencies_table_syntax (add_workspace d1) = Inr d3"
    "fix_inline_tables d3 = Inr d4"
    "over_sections (fix_feature_section False ''reqwest'' ''0.11.27'' ''json'')
       [''dependencies'', ''dev-dependencies'', ''build-dependencies''] d4 = Inr d5"
    "over_sections (fix_feature_section True ''chrono'' ''0.4'' ''serde'')
       [''dependencies'', ''dev-dependencies''] d5 = Inr d6"
    "over_sections (fix_feature_section True ''nalgebra'' ''0.32'' ''serde-serialize'')
       [''dependencies'', ''dev-dependencies''] d6 = Inr d'"
proof -
  from assms obtain d1 where p1: "fix_package d = Inr d1"
    by (cases "fix_package d") (simp_all add: fix_data_def)
  from assms p1 obtain d3 where p3: "fix_dependencies_table_syntax (add_workspace d1) = Inr d3"
    by (cases "fix_dependencies_table_syntax (add_workspace d1)") (simp_all add: fix_data_def)
  from assms p1 p3 obtain d4 where p4: "fix_inline_tables d3 = Inr d4"
    by (cases "fix_inline_tables d3") (simp_all add: fix_data_def)
  from assms p1 p3 p4 obtain d5 where p5: "fix_reqwest d4 = Inr d5"
    by (cases "fix_reqwest d4") (simp_all add: fix_data_def)
  from assms p1 p3 p4 p5 obtain d6 where p6: "fix_chrono d5 = Inr d6"
    by (cases "fix_chrono d5") (simp_all add: fix_data_def)
  from assms p1 p3 p4 p5 p6 have p7: "fix_nalgebra d6 = Inr d'"
    by (simp add: fix_data_def)
  from that [OF p1 p3 p4 p5 [unfolded fix_reqwest_def] p6 [unfolded fix_chrono_def]
      p7 [unfolded fix_nalgebra_def]]
  show ?thesis .
qed

lemma fix_data_normal:
  assumes "fix_data d = Inr d'"
  shows "normal d'"
proof -
  from assms obtain d1 d3 d4 d5 d6 where
    p1: "fix_package d = Inr d1"
    and p3: "fix_dependencies_table_syntax (add_workspace d1) = Inr d3"
    and p4: "fix_inline_tables d3 = Inr d4"
    and p5: "over_sections (fix_feature_section False ''reqwest'' ''0.11.27'' ''json'')
       [''dependencies'', ''dev-dependencies'', ''build-dependencies''] d4 = Inr d5"
    and p6: "over_sections (fix_feature_section True ''chrono'' ''0.4'' ''serde'')
       [''dependencies'', ''dev-dependencies''] d5 = Inr d6"
    and p7: "over_sections (fix_feature_section True ''nalgebra'' ''0.32'' ''serde-serialize'')
       [''dependencies'', ''dev-dependencies''] d6 = Inr d'"
    by (rule fix_data_passes)
  let ?d2 = "add_workspace d1"
  have dis3: "distinct [''dependencies'', ''dev-dependencies'', ''build-dependencies'']"
    and dis2: "distinct [''dependencies'', ''dev-dependencies'']"
    by simp_all
  note r1 = fix_package_ok [OF p1]
  note r2 = add_workspace_ok [of d1]
  note r4 = fix_inline_tables_rel [OF p4]
  note r5 = feature_pass_rel [OF p5 dis3]
  note r6 = feature_pass_rel [OF p6 dis2]
  note r7 = feature_pass_rel [OF p7 dis2]
  have frame3: "\<And>j. \<not> dotted j \<Longrightarrow> j \<noteq> ''dependencies'' \<Longrightarrow> j \<noteq> ''dev-dependencies''
      \<Longrightarrow> map_of d3 j = map_of ?d2 j"
    using p3 unfolding fix_dependencies_table_syntax_def by (rule move_deps_frame)
  have frame47: "\<And>j. j \<notin> set sections3 \<Longrightarrow> map_of d' j = map_of d3 j"
  proof -
    fix j assume j: "j \<notin> set sections3"
    then have j3: "j \<notin> set [''dependencies'', ''dev-dependencies'', ''build-dependencies'']"
      and j2: "j \<notin> set [''dependencies'', ''dev-dependencies'']"
      by (simp_all add: sections3_def)
    from r7 j2 have "map_of d' j = map_of d6 j" by blast
    also from r6 j2 have "\<dots> = map_of d5 j" by blast
    also from r5 j3 have "\<dots> = map_of d4 j" by blast
    also from r4 j have "\<dots> = map_of d3 j" by blast
    finally show "map_of d' j = map_of d3 j" .
  qed
  have pk: "pkg_ok (map_of d' ''package'')"
  proof -
    have "map_of d' ''package'' = map_of d3 ''package''"
      by (rule frame47) (simp add: sections3_def)
    also have "\<dots> = map_of ?d2 ''package''" by (rule frame3) simp_all
    also have "\<dots> = map_of d1 ''package''" using r2 by simp
    finally show ?thesis using r1 by simp
  qed
  have ws: "map_of d' ''workspace'' \<noteq> None"
  proof -
    have "map_of d' ''workspace'' = map_of d3 ''workspace''"
      by (rule frame47) (simp add: sections3_def)
    also have "\<dots> = map_of ?d2 ''workspace''" by (rule frame3) simp_all
    finally show ?thesis using r2 by simp
  qed
  have keys: "map fst d' = map fst d3"
    using r4 r5 r6 r7 by simp
  have nd: "\<forall>j\<in>fst ` set d'. \<not> dotted j"
  proof -
    from keys have "set (map fst d') = set (map fst d3)" by simp
    then have "fst ` set d' = fst ` set d3" by simp
    with table_syntax_no_dotted [OF p3] show ?thesis by simp
  qed
  have s4: "\<forall>s\<in>set sections3. sec4 (map_of d' s)"
  proof
    fix s assume s: "s \<in> set sections3"
    with r4 have "Q4 (map_of d3 s) (map_of d4 s)" by blast
    then have "sec4 (map_of d4 s)" by (rule Q4_sec4)
    then have "sec4 (map_of d5 s)" by (rule feature_pass_sec4 [OF p5 dis3])
    then have "sec4 (map_of d6 s)" by (rule feature_pass_sec4 [OF p6 dis2])
    then show "sec4 (map_of d' s)" by (rule feature_pass_sec4 [OF p7 dis2])
  qed
  have s5: "\<forall>s\<in>set sections3. sec5 False ''reqwest'' ''json'' (map_of d' s)"
  proof
    fix s assume s: "s \<in> set sections3"
    then have "s \<in> set [''dependencies'', ''dev-dependencies'', ''build-dependencies'']"
      by (simp add: sections3_def)
    then have "sec5 False ''reqwest'' ''json'' (map_of d5 s)"
      by (rule feature_pass_sec5 [OF p5 dis3])
    then have "sec5 False ''reqwest'' ''json'' (map_of d6 s)"
      by (rule feature_pass_sec5_other [OF p6 dis2, rotated]) simp
    then show "sec5 False ''reqwest'' ''json'' (map_of d' s)"
      by (rule feature_pass_sec5_other [OF p7 dis2, rotated]) simp
  qed
  have s6: "\<forall>s\<in>{''dependencies'', ''dev-dependencies''}.
              sec5 True ''chrono'' ''serde'' (map_of d' s)"
  proof
    fix s assume "s \<in> {''dependencies'', ''dev-dependencies''}"
    then have "s \<in> set [''dependencies'', ''dev-dependencies'']" by simp
    then have "sec5 True ''chrono'' ''serde'' (map_of d6 s)"
      by (rule feature_pass_sec5 [OF p6 dis2])
    then show "sec5 True ''chrono'' ''serde'' (map_of d' s)"
      by (rule feature_pass_sec5_other [OF p7 dis2, rotated]) simp
  qed
  have s7: "\<forall>s\<in>{''dependencies'', ''dev-dependencies''}.
              sec5 True ''nalgebra'' ''serde-serialize'' (map_of d' s)"
  proof
    fix s assume "s \<in> {''dependencies'', ''dev-dependencies''}"
    then have "s \<in> set [''dependencies'', ''dev-dependencies'']" by simp
    then show "sec5 True ''nalgebra'' ''serde-serialize'' (map_of d' s)"
      by (rule feature_pass_sec5 [OF p7 dis2])
  qed
  from pk ws nd s4 s5 s6 s7 show ?thesis unfolding normal_def by blast
qed

lemma normal_fixed:
  assumes "normal d"
  shows "fix_data d = Inr d"
proof -
  from assms have pk: "pkg_ok (map_of d ''package'')"
    and ws: "map_of d ''workspace'' \<noteq> None"
    and nd: "\<forall>j\<in>fst ` set d. \<not> dotted j"
    and s4: "\<forall>s\<in>set sections3. sec4 (map_of d s)"
    and s5: "\<forall>s\<in>set sections3. sec5 False ''reqwest'' ''json'' (map_of d s)"
    and s6: "\<forall>s\<in>{''dependencies'', ''dev-dependencies''}.
              sec5 True ''chrono'' ''serde'' (map_of d s)"
    and s7: "\<forall>s\<in>{''dependencies'', ''dev-dependencies''}.
              sec5 True ''nalgebra'' ''serde-serialize'' (map_of d s)"
    unfolding normal_def by blast+
  have f1: "fix_package d = Inr d" using pk by (rule pkg_ok_fixed)
  have f2: "add_workspace d = d" using ws by (rule add_workspace_fixed)
  have f3: "fix_dependencies_table_syntax d = Inr d" using nd by (rule table_syntax_fixed)
  have f4: "fix_inline_tables d = Inr d"
    unfolding fix_inline_tables_def
  proof (rule over_sections_fixed, rule ballI)
    fix s assume "s \<in> set [''dependencies'', ''dev-dependencies'', ''build-dependencies'']"
    then have "s \<in> set sections3" by (simp add: sections3_def)
    with s4 have "sec4 (map_of d s)" by blast
    then show "fix_inline_section s d = Inr d" by (rule sec4_fixed)
  qed
  have f5: "fix_reqwest d = Inr d"
    unfolding fix_reqwest_def
  proof (rule over_sections_fixed, rule ballI)
    fix s assume "s \<in> set [''dependencies'', ''dev-dependencies'', ''build-dependencies'']"
    then have "s \<in> set sections3" by (simp add: sections3_def)
    with s4 s5 have "sec4 (map_of d s)" "sec5 False ''reqwest'' ''json'' (map_of d s)"
      by blast+
    then show "fix_feature_section False ''reqwest'' ''0.11.27'' ''json'' s d = Inr d"
      by (rule sec5_fixed)
  qed
  have f6: "fix_chrono d = Inr d"
    unfolding fix_chrono_def
  proof (rule over_sections_fixed, rule ballI)
    fix s assume s: "s \<in> set [''dependencies'', ''dev-dependencies'']"
    then have "s \<in> set sections3" by (auto simp add: sections3_def)
    with s4 have a: "sec4 (map_of d s)" by blast
    from s s6 have b: "sec5 True ''chrono'' ''serde'' (map_of d s)" by auto
    from a b show "fix_feature_section True ''chrono'' ''0.4'' ''serde'' s d = Inr d"
      by (rule sec5_fixed)
  qed
  have f7: "fix_nalgebra d = Inr d"
    unfolding fix_nalgebra_def
  proof (rule over_sections_fixed, rule ballI)
    fix s assume s: "s \<in> set [''dependencies'', ''dev-dependencies'']"
    then have "s \<in> set sections3" by (auto simp add: sections3_def)
    with s4 have a: "sec4 (map_of d s)" by blast
    from s s7 have b: "sec5 True ''nalgebra'' ''serde-serialize'' (map_of d s)" by auto
    from a b
    show "fix_feature_section True ''nalgebra'' ''0.32'' ''serde-serialize'' s d = Inr d"
      by (rule sec5_fixed)
  qed
  from f1 f2 f3 f4 f5 f6 f7 show ?thesis by (simp add: fix_data_def)
qed

subsection \<open>The entries of a section along the passes\<close>

lemma ensure_feature_keeps:
  "ensure_feature feat f = Inr f' \<Longrightarrow>
     (case f of TList xs \<Rightarrow> set xs | _ \<Rightarrow> {}) \<subseteq> (case f' of TList xs \<Rightarrow> set xs | _ \<Rightarrow> {})"
  by (cases f) (auto simp add: ensure_feature_def split: if_splits)

lemma add_required_keeps:
  "add_required n f = Inr f' \<Longrightarrow>
     (case f of TList xs \<Rightarrow> set xs | _ \<Rightarrow> {}) \<subseteq> (case f' of TList xs \<Rightarrow> set xs | _ \<Rightarrow> {})"
  using ensure_feature_keeps by (auto simp add: add_required_def split: if_splits)

lemma fix_inline_dep_keeps_features:
  "fix_inline_dep n v = Inr v' \<Longrightarrow> declared_features v \<subseteq> declared_features v'"
proof (cases v)
  case (TDict kv)
  assume r: "fix_inline_dep n v = Inr v'"
  show ?thesis
  proof (cases "workspace_true kv")
    case False
    with r TDict show ?thesis by (simp add: fix_inline_dep_def)
  next
    case True
    let ?f = "case map_of kv ''features'' of Some f \<Rightarrow> f | None \<Rightarrow> TList []"
    from r TDict True obtain f' where f': "add_required n ?f = Inr f'"
      and v': "v' = (if truthy f' then TDict [(''version'', inherited_version n), (''features'', f')]
                     else TDict [(''version'', inherited_version n)])"
      by (auto simp add: fix_inline_dep_def split: sum.splits if_splits)
    have sub: "(case ?f of TList xs \<Rightarrow> set xs | _ \<Rightarrow> {})
                 \<subseteq> (case f' of TList xs \<Rightarrow> set xs | _ \<Rightarrow> {})"
      using add_required_keeps [OF f'] .
    have d: "declared_features v = (case ?f of TList xs \<Rightarrow> set xs | _ \<Rightarrow> {})"
      using TDict by (simp add: declared_features_def split: option.splits toml.splits)
    have d': "(case f' of TList xs \<Rightarrow> set xs | _ \<Rightarrow> {}) \<subseteq> declared_features v'"
      using v' by (cases f') (auto simp add: declared_features_def)
    from sub d d' show ?thesis by blast
  qed
qed (auto simp add: fix_inline_dep_def declared_features_def split: if_splits option.splits)

lemma fix_feature_dep_keeps_features:
  "fix_feature_dep create dflt feat v = Inr v' \<Longrightarrow> declared_features v \<subseteq> declared_features v'"
proof (cases v)
  case (TDict kv)
  assume r: "fix_feature_dep create dflt feat v = Inr v'"
  show ?thesis
  proof (cases "map_of kv ''features''")
    case None
    with r TDict show ?thesis by (auto simp add: fix_feature_dep_def declared_features_def)
  next
    case (Some fs)
    with r TDict show ?thesis
      by (cases fs) (auto simp add: fix_feature_dep_def declared_features_def update_conv'
             split: if_splits sum.splits)
  qed
qed (auto simp add: fix_feature_dep_def declared_features_def)

lemma entriesI:
  assumes "\<And>deps n v. x = Some (TDict deps) \<Longrightarrow> map_of deps n = Some v \<Longrightarrow>
        \<exists>deps' v'. y = Some (TDict deps') \<and> map_of deps' n = Some v' \<and> R n v v'"
  shows "entries R x y"
  using assms unfolding entries_def by blast

lemma entriesD:
  assumes "entries R x y" and "x = Some (TDict deps)" and "map_of deps n = Some v"
  shows "\<exists>deps' v'. y = Some (TDict deps') \<and> map_of deps' n = Some v' \<and> R n v v'"
  using assms unfolding entries_def by blast

lemma entries_same: "(\<And>n v. R n v v) \<Longrightarrow> entries R x x"
  by (rule entriesI) blast

lemma entries_mono:
  assumes "entries R x y" and "\<And>n v v'. R n v v' \<Longrightarrow> R' n v v'"
  shows "entries R' x y"
proof (rule entriesI)
  fix deps n v assume "x = Some (TDict deps)" "map_of deps n = Some v"
  from entriesD [OF assms(1) this] obtain deps' v' where
    "y = Some (TDict deps')" "map_of deps' n = Some v'" "R n v v'" by blast
  with assms(2) show "\<exists>deps' v'. y = Some (TDict deps') \<and> map_of deps' n = Some v' \<and> R' n v v'"
    by blast
qed

lemma entries_step:
  assumes "entries R x y" and "entries (\<lambda>n. later_step) y z"
    and "\<And>n v v' v''. R n v v' \<Longrightarrow> later_step v' v'' \<Longrightarrow> R n v v''"
  shows "entries R x z"
proof (rule entriesI)
  fix deps n v assume "x = Some (TDict deps)" "map_of deps n = Some v"
  from entriesD [OF assms(1) this] obtain deps1 v1 where
    y: "y = Some (TDict deps1)" "map_of deps1 n = Some v1" and r: "R n v v1" by blast
  from entriesD [OF assms(2) y] obtain deps2 v2 where
    z: "z = Some (TDict deps2)" "map_of deps2 n = Some v2" and l: "later_step v1 v2" by blast
  from assms(3) [OF r l] z
  show "\<exists>deps' v'. z = Some (TDict deps') \<and> map_of deps' n = Some v' \<and> R n v v'"
    by blast
qed

lemma Q4_entries: "Q4 x y \<Longrightarrow> entries (\<lambda>n v v'. fix_inline_dep n v = Inr v') x y"
proof (rule entriesI)
  fix deps n v
  assume q: "Q4 x y" and x: "x = Some (TDict deps)" and l: "map_of deps n = Some v"
  from q x obtain deps' where y: "y = Some (TDict deps')"
    and f: "fix_inline_deps deps = Inr deps'"
    by (auto simp add: Q4_def)
  from fix_inline_deps_lookup [OF f l] y
  show "\<exists>deps' v'. y = Some (TDict deps') \<and> map_of deps' n = Some v'
                     \<and> fix_inline_dep n v = Inr v'"
    by blast
qed

lemma Qf_entries: "Qf create name dflt feat x y \<Longrightarrow> entries (\<lambda>n. later_step) x y"
proof (rule entriesI)
  fix deps n v
  assume q: "Qf create name dflt feat x y"
    and x: "x = Some (TDict deps)" and l: "map_of deps n = Some v"
  show "\<exists>deps' v'. y = Some (TDict deps') \<and> map_of deps' n = Some v' \<and> later_step v v'"
  proof (cases "map_of deps name")
    case None
    with q x have "y = x" by (simp add: Qf_def)
    with x l show ?thesis by (auto simp add: later_step_def)
  next
    case (Some dep)
    with q x obtain dep' where f: "fix_feature_dep create dflt feat dep = Inr dep'"
      and y: "y = Some (TDict (AList.update name dep' deps))"
      by (auto simp add: Qf_def)
    show ?thesis
    proof (cases "n = name")
      case True
      with l Some have "v = dep" by simp
      with f have "later_step v dep'" unfolding later_step_def by blast
      moreover from True have "map_of (AList.update name dep' deps) n = Some dep'"
        by (simp add: update_conv')
      ultimately show ?thesis using y by blast
    next
      case False
      with l have "map_of (AList.update name dep' deps) n = Some v"
        by (simp add: update_conv')
      moreover have "later_step v v" by (simp add: later_step_def)
      ultimately show ?thesis using y by blast
    qed
  qed
qed

lemma feature_pass_entries:
  assumes "over_sections (fix_feature_section create name dflt feat) ss d = Inr d'"
    and "distinct ss"
  shows "entries (\<lambda>n. later_step) (map_of d s) (map_of d' s)"
proof (cases "s \<in> set ss")
  case True
  with feature_pass_rel [OF assms] have "Qf create name dflt feat (map_of d s) (map_of d' s)"
    by blast
  then show ?thesis by (rule Qf_entries)
next
  case False
  with feature_pass_rel [OF assms] have "map_of d' s = map_of d s" by blast
  then show ?thesis by (simp add: entries_same later_step_def)
qed

lemma resolve_entries:
  assumes run: "fix_data d = Inr d'"
    and nd: "\<forall>j\<in>fst ` set d. \<not> dotted j"
    and s: "s \<in> set sections3"
    and first: "\<And>n v v'. fix_inline_dep n v = Inr v' \<Longrightarrow> R n v v'"
    and later: "\<And>n v v' v''. R n v v' \<Longrightarrow> later_step v' v'' \<Longrightarrow> R n v v''"
  shows "entries R (map_of d s) (map_of d' s)"
proof -
  from run obtain d1 d3 d4 d5 d6 where
    p1: "fix_package d = Inr d1"
    and p3: "fix_dependencies_table_syntax (add_workspace d1) = Inr d3"
    and p4: "fix_inline_tables d3 = Inr d4"
    and p5: "over_sections (fix_feature_section False ''reqwest'' ''0.11.27'' ''json'')
       [''dependencies'', ''dev-dependencies'', ''build-dependencies''] d4 = Inr d5"
    and p6: "over_sections (fix_feature_section True ''chrono'' ''0.4'' ''serde'')
       [''dependencies'', ''dev-dependencies''] d5 = Inr d6"
    and p7: "over_sections (fix_feature_section True ''nalgebra'' ''0.32'' ''serde-serialize'')
       [''dependencies'', ''dev-dependencies''] d6 = Inr d'"
    by (rule fix_data_passes)
  have dis3: "distinct [''dependencies'', ''dev-dependencies'', ''build-dependencies'']"
    and dis2: "distinct [''dependencies'', ''dev-dependencies'']"
    by simp_all
  from s have sp: "s \<noteq> ''package''" and sw: "s \<noteq> ''workspace''"
    by (auto simp add: sections3_def)
  note r1 = fix_package_ok [OF p1]
  note r2 = add_workspace_ok [of d1]
  have "\<forall>j\<in>fst ` set (add_workspace d1). \<not> dotted j"
    using r1 r2 nd by simp
  then have "fix_dependencies_table_syntax (add_workspace d1) = Inr (add_workspace d1)"
    by (rule table_syntax_fixed)
  with p3 have d3: "d3 = add_workspace d1" by simp
  have e3: "map_of d3 s = map_of d s"
    using d3 r1 r2 sp sw by simp
  from fix_inline_tables_rel [OF p4] s have "Q4 (map_of d3 s) (map_of d4 s)" by blast
  then have "entries (\<lambda>n v v'. fix_inline_dep n v = Inr v') (map_of d3 s) (map_of d4 s)"
    by (rule Q4_entries)
  then have "entries R (map_of d3 s) (map_of d4 s)"
    by (rule entries_mono) (rule first)
  then have "entries R (map_of d3 s) (map_of d5 s)"
    by (rule entries_step [OF _ feature_pass_entries [OF p5 dis3]]) (rule later)
  then have "entries R (map_of d3 s) (map_of d6 s)"
    by (rule entries_step [OF _ feature_pass_entries [OF p6 dis2]]) (rule later)
  then have "entries R (map_of d3 s) (map_of d' s)"
    by (rule entries_step [OF _ feature_pass_entries [OF p7 dis2]]) (rule later)
  with e3 show ?thesis by simp
qed





lemma later_step_features:
  assumes "later_step v v'"
  shows "declared_features v \<subseteq> declared_features v'"
proof -
  from assms have "v' = v \<or> (\<exists>create dflt feat. fix_feature_dep create dflt feat v = Inr v')"
    by (simp add: later_step_def)
  then show ?thesis
  proof
    assume "v' = v"
    then show ?thesis by simp
  next
    assume "\<exists>create dflt feat. fix_feature_dep create dflt feat v = Inr v'"
    then obtain create dflt feat where "fix_feature_dep create dflt feat v = Inr v'" by blast
    then show ?thesis by (rule fix_feature_dep_keeps_features)
  qed
qed



lemma ex_doc_resolved: "fix_data ex_doc = Inr ex_resolved"
  by (simp add: ex_doc_def ex_resolved_def resolver_defs)

lemma ex_doc_not_dotted: "\<forall>j\<in>fst ` set ex_doc. \<not> dotted j"
  by (simp add: ex_doc_def dotted_def)

subsection \<open>Idempotence of the structured resolver\<close>

text \<open>
  C8, as the claim states it, fails on the text resolver of \<open>publish-hanzo-automated.py\<close>.
  Its test for a missing license looks for \<open>license =\<close> anywhere in the text. In the
  manifest below the only occurrence is inside the inherited declaration of \<open>log\<close>, which
  the dependency pass replaces by \<open>log = "0.4.20"\<close>; resolving the result again adds a
  \<open>license\<close> line after the \<open>authors\<close> line.
\<close>

theorem text_resolver_not_idempotent:
  "fixed_content lic_world PUBLISHED_HANZO ''hanzo-db'' lic_manifest = lic_once
   \<and> fixed_content lic_world PUBLISHED_HANZO ''hanzo-db'' lic_once = lic_twice
   \<and> lic_twice \<noteq> lic_once"
proof (intro conjI)
  show "fixed_content lic_world PUBLISHED_HANZO ''hanzo-db'' lic_manifest = lic_once"
    by (simp add: lic_world_def lic_manifest_def lic_once_def fixed_content_def fixed_metadata_def re_sub_def
          add_after_authors_def nl_def dq_def replace_dep_def explicit_dep_def
          PUBLISHED_HANZO_def WORKSPACE_DEPS_def CRYPTO_FEATURES_def Let_def)
  show "fixed_content lic_world PUBLISHED_HANZO ''hanzo-db'' lic_once = lic_twice"
    by (simp add: lic_world_def lic_manifest_def lic_once_def lic_twice_def fixed_content_def fixed_metadata_def
          re_sub_def add_after_authors_def nl_def dq_def replace_dep_def explicit_dep_def
          PUBLISHED_HANZO_def WORKSPACE_DEPS_def CRYPTO_FEATURES_def Let_def)
  show "lic_twice \<noteq> lic_once"
    by (simp add: lic_once_def lic_twice_def nl_def dq_def)
qed

text \<open>
  C8, amended. The structured resolver is idempotent: when \<open>fix_data\<close>, the transformation
  that \<open>fix_workspace_inheritance\<close> applies to the parsed manifest, returns a document,
  applying it to that document returns the same document. On the resolved document the
  metadata pass overwrites nothing, no version is substituted again and no feature is
  added again.
\<close>

theorem resolve_idempotent:
  "fix_data d = Inr d' \<Longrightarrow> fix_data d' = Inr d'"
  by (rule normal_fixed) (rule fix_data_normal)

theorem resolve_idempotent_witness:
  "fix_data ex_doc = Inr ex_resolved \<and> fix_data ex_resolved = Inr ex_resolved"
  using resolve_idempotent [OF ex_doc_resolved] ex_doc_resolved by simp

subsection \<open>Explicit declarations and mandatory features\<close>




subsection \<open>Declared features are kept\<close>

text \<open>
  C7, as the claim states it, fails. The structured resolver builds a new table with
  \<open>version\<close> and \<open>features\<close> for an inherited dependency: the \<open>optional\<close> flag of
  \<open>tokio\<close> is gone. The text resolver writes the features of its table in place of the
  declared ones: \<open>full\<close> is gone.
\<close>

theorem inherited_subfields_dropped:
  "fix_data [(''dependencies'',
        TDict [(''tokio'', TDict [(''workspace'', TBool True),
                                  (''features'', TList [TStr ''full'']),
                                  (''optional'', TBool True)])])]
     = Inr [(''dependencies'',
               TDict [(''tokio'', TDict [(''version'', TStr ''1.36''),
                                         (''features'', TList [TStr ''full''])])]),
            (''workspace'', TDict [])]
   \<and> replace_dep PUBLISHED_HANZO
         (''tokio = { workspace = true, features = ['' @ dq @ ''full'' @ dq @ ''] }'') ''tokio''
       = ''tokio = { version = '' @ dq @ ''1.36'' @ dq @ '', features = ['' @ sq @ ''rt'' @ sq
           @ '', '' @ sq @ ''rt-multi-thread'' @ sq @ '', '' @ sq @ ''macros'' @ sq
           @ '', '' @ sq @ ''fs'' @ sq @ '', '' @ sq @ ''io-util'' @ sq
           @ '', '' @ sq @ ''net'' @ sq @ '', '' @ sq @ ''sync'' @ sq
           @ '', '' @ sq @ ''time'' @ sq @ ''] }''"
  by (simp add: resolver_defs replace_dep_def explicit_dep_def py_list_repr_def
        PUBLISHED_HANZO_def WORKSPACE_DEPS_def CRYPTO_FEATURES_def dq_def sq_def)

text \<open>
  C7, amended. For a parsed manifest without top-level keys of the form
  \<open>dependencies.name\<close> or \<open>dev-dependencies.name\<close>, every entry of the three dependency
  sections is still there when the structured resolver returns, and every feature its
  feature list declared is in the feature list of the resolved entry.
\<close>

theorem features_preserved:
  assumes "fix_data d = Inr d'"
    and "\<forall>j\<in>fst ` set d. \<not> dotted j"
    and "s \<in> {''dependencies'', ''dev-dependencies'', ''build-dependencies''}"
    and "map_of d s = Some (TDict deps)"
    and "map_of deps n = Some v"
  shows "\<exists>deps' v'. map_of d' s = Some (TDict deps') \<and> map_of deps' n = Some v'
                     \<and> declared_features v \<subseteq> declared_features v'"
proof -
  from assms(3) have s: "s \<in> set sections3" by (simp add: sections3_def)
  have "entries (\<lambda>n v v'. declared_features v \<subseteq> declared_features v')
          (map_of d s) (map_of d' s)"
  proof (rule resolve_entries [OF assms(1,2) s])
    fix n v v' assume "fix_inline_dep n v = Inr v'"
    then show "declared_features v \<subseteq> declared_features v'"
      by (rule fix_inline_dep_keeps_features)
  next
    fix n v v' v''
    assume "declared_features v \<subseteq> declared_features v'" and "later_step v' v''"
    with later_step_features [of v' v'']
    show "declared_features v \<subseteq> declared_features v''" by blast
  qed
  from entriesD [OF this assms(4,5)] show ?thesis .
qed

theorem features_preserved_witness:
  "fix_data ex_doc = Inr ex_resolved
   \<and> \<not> dotted ''package'' \<and> \<not> dotted ''dependencies'' \<and> \<not> dotted ''build-dependencies''
   \<and> map fst ex_doc = [''package'', ''dependencies'', ''build-dependencies'']
   \<and> ''dependencies'' \<in> {''dependencies'', ''dev-dependencies'', ''build-dependencies''}
   \<and> (\<exists>deps. map_of ex_doc ''dependencies'' = Some (TDict deps)
         \<and> map_of deps ''reqwest''
             = Some (TDict [(''workspace'', TBool True), (''features'', TList [TStr ''stream''])]))
   \<and> (\<exists>deps' v'. map_of ex_resolved ''dependencies'' = Some (TDict deps')
         \<and> map_of deps' ''reqwest'' = Some v'
         \<and> declared_features
              (TDict [(''workspace'', TBool True), (''features'', TList [TStr ''stream''])])
             \<subseteq> declared_features v')
   \<and> declared_features
        (TDict [(''workspace'', TBool True), (''features'', TList [TStr ''stream''])])
       = {TStr ''stream''}"
proof -
  let ?deps = "[(''serde'', TDict [(''workspace'', TBool True)]),
                (''tokio'', TDict [(''workspace'', TBool True),
                                   (''features'', TList [TStr ''full'']),
                                   (''optional'', TBool True)]),
                (''reqwest'', TDict [(''workspace'', TBool True),
                                     (''features'', TList [TStr ''stream''])]),
                (''foo'', TDict [(''workspace'', TBool True)])]"
  have s: "''dependencies'' \<in> {''dependencies'', ''dev-dependencies'', ''build-dependencies''}"
    by simp
  have m: "map_of ex_doc ''dependencies'' = Some (TDict ?deps)"
    by (simp add: ex_doc_def)
  have l: "map_of ?deps ''reqwest''
             = Some (TDict [(''workspace'', TBool True), (''features'', TList [TStr ''stream''])])"
    by simp
  have f: "declared_features
        (TDict [(''workspace'', TBool True), (''features'', TList [TStr ''stream''])])
       = {TStr ''stream''}"
    by (simp add: declared_features_def)
  from features_preserved [OF ex_doc_resolved ex_doc_not_dotted s m l]
  have "\<exists>deps' v'. map_of ex_resolved ''dependencies'' = Some (TDict deps')
         \<and> map_of deps' ''reqwest'' = Some v'
         \<and> declared_features
              (TDict [(''workspace'', TBool True), (''features'', TList [TStr ''stream''])])
             \<subseteq> declared_features v'" .
  moreover have "map fst ex_doc = [''package'', ''dependencies'', ''build-dependencies'']"
    by (simp add: ex_doc_def)
  moreover have "\<not> dotted ''package''" "\<not> dotted ''dependencies''"
    "\<not> dotted ''build-dependencies''"
    by simp_all
  ultimately show ?thesis using ex_doc_resolved s m l f by blast
qed

subsection \<open>Dependencies unknown to the tables\<close>

lemma unknown_not_special:
  "map_of DEPENDENCY_VERSIONS n = None \<Longrightarrow> n \<noteq> ''chrono'' \<and> n \<noteq> ''reqwest'' \<and> n \<noteq> ''nalgebra''"
  by (auto simp add: DEPENDENCY_VERSIONS_def)

text \<open>
  C6, as the claim states it, fails on the text resolver: \<open>replace_dep\<close> returns the
  match as it is for a name that is in neither table, so the declaration
  \<open>foo = { workspace = true }\<close> stays in the manifest that is published.
\<close>

theorem text_resolver_keeps_unknown:
  "fixed_content foo_world PUBLISHED_HANZO ''hanzo-pqc'' foo_manifest = foo_manifest
   \<and> replace_dep PUBLISHED_HANZO ''foo = { workspace = true }'' ''foo''
       = ''foo = { workspace = true }''"
  by (simp add: foo_world_def foo_manifest_def fixed_content_def fixed_metadata_def re_sub_def add_after_authors_def nl_def dq_def
      replace_dep_def PUBLISHED_HANZO_def WORKSPACE_DEPS_def Let_def)


text \<open>
  C6, amended. In the structured resolver an inherited dependency whose name is not in
  \<open>DEPENDENCY_VERSIONS\<close> and does not start with \<open>hanzo_\<close> becomes an explicit table with
  the version \<open>1.0\<close> (and its feature list, when it has a non-empty one), both in
  \<open>fix_inline_tables\<close> and in \<open>fix_dependencies_table_syntax\<close>; no exception is raised for
  it and the result is not inherited.
\<close>

theorem unknown_dependency_default:
  assumes "workspace_true kv"
    and "map_of DEPENDENCY_VERSIONS dep_name = None"
    and "\<not> prefix ''hanzo_'' dep_name"
  shows "fix_inline_dep dep_name (TDict kv)
           = Inr (TDict ((''version'', TStr ''1.0'') #
                    (case map_of kv ''features'' of
                       None \<Rightarrow> []
                     | Some f \<Rightarrow> if truthy f then [(''features'', f)] else [])))
         \<and> table_dep_value dep_name (TDict kv) = TDict [(''version'', TStr ''1.0'')]
         \<and> (\<forall>v. fix_inline_dep dep_name (TDict kv) = Inr v \<longrightarrow> \<not> inherited v)
         \<and> \<not> inherited (table_dep_value dep_name (TDict kv))"
proof -
  from assms(2) have ns: "dep_name \<noteq> ''chrono''" "dep_name \<noteq> ''reqwest''"
    "dep_name \<noteq> ''nalgebra''"
    using unknown_not_special by blast+
  have v: "inherited_version dep_name = TStr ''1.0''"
    using assms(2,3) by (simp add: inherited_version_def)
  have a: "fix_inline_dep dep_name (TDict kv)
           = Inr (TDict ((''version'', TStr ''1.0'') #
                    (case map_of kv ''features'' of
                       None \<Rightarrow> []
                     | Some f \<Rightarrow> if truthy f then [(''features'', f)] else [])))"
    using assms(1) ns v
    by (simp add: fix_inline_dep_def add_required_def split: option.splits)
  have b: "table_dep_value dep_name (TDict kv) = TDict [(''version'', TStr ''1.0'')]"
    using assms(1) ns v by (simp add: table_dep_value_def)
  have c: "\<not> inherited (TDict ((''version'', TStr ''1.0'') #
                    (case map_of kv ''features'' of
                       None \<Rightarrow> []
                     | Some f \<Rightarrow> if truthy f then [(''features'', f)] else [])))"
    by (simp add: inherited_def workspace_true_def split: option.splits)
  have d: "\<not> inherited (TDict [(''version'', TStr ''1.0'')])"
    by (simp add: inherited_def workspace_true_def)
  from a b c d show ?thesis by simp
qed

theorem unknown_dependency_default_witness:
  "workspace_true [(''workspace'', TBool True), (''optional'', TBool True)]
   \<and> map_of DEPENDENCY_VERSIONS ''foo'' = None
   \<and> \<not> prefix ''hanzo_'' ''foo''
   \<and> fix_inline_dep ''foo'' (TDict [(''workspace'', TBool True), (''optional'', TBool True)])
       = Inr (TDict [(''version'', TStr ''1.0'')])"
proof -
  have h1: "workspace_true [(''workspace'', TBool True), (''optional'', TBool True)]"
    by (simp add: workspace_true_def)
  have h2: "map_of DEPENDENCY_VERSIONS ''foo'' = None"
    by (simp add: DEPENDENCY_VERSIONS_def)
  have h3: "\<not> prefix ''hanzo_'' ''foo''"
    by simp
  from unknown_dependency_default [OF h1 h2 h3] h1 h2 h3 show ?thesis by simp
qed

end
